theory Spec2Isabelle
  imports Complex_Main "HOL-Library.AList"
begin

section \<open>JavaScript strings and scalar values\<close>

text \<open>
  A JavaScript string is modelled as a \<^typ>\<open>string\<close>: a list of code units, restricted to
  the code units below 256 that an SQL dump read as text normally holds. A JavaScript
  object used as a dictionary is modelled by its own properties (a Row as a map, a table of the
  identifier mapper as an association list); what a lookup finds under the property names
  inherited from \<^verbatim>\<open>Object.prototype\<close> (such as \<^verbatim>\<open>constructor\<close>) is not modelled, and
  the statements that depend on it exclude those names.
  Three characters cannot be written inside an Isabelle string literal without ambiguity, so
  they get names.
\<close>

abbreviation squote :: char where "squote \<equiv> CHR 0x27"
abbreviation dquote :: char where "dquote \<equiv> CHR 0x22"
abbreviation backslash :: char where "backslash \<equiv> CHR 0x5C"

text \<open>
  The typed scalar a row holds. A number is kept as the exact decimal value the literal
  denotes; JavaScript rounds it to the nearest IEEE double (and has a negative zero), which
  no statement below depends on.
\<close>

datatype jsnumber = NaN | PosInfinity | NegInfinity | Finite rat

datatype jsval = JNull | JNumber jsnumber | JString string

text \<open>\<^verbatim>\<open>WhiteSpace\<close> and \<^verbatim>\<open>LineTerminator\<close> code units below 256:
  TAB, LF, VT, FF, CR, SP and NBSP.\<close>

definition isWhiteSpace :: "char \<Rightarrow> bool" where
  "isWhiteSpace c = (c \<in> set [CHR 0x09, CHR 0x0A, CHR 0x0B, CHR 0x0C, CHR 0x0D, CHR 0x20, CHR 0xA0])"

definition trim :: "string \<Rightarrow> string" where
  "trim s = rev (dropWhile isWhiteSpace (rev (dropWhile isWhiteSpace s)))"

text \<open>\<^verbatim>\<open>String.prototype.toUpperCase\<close> on the ASCII letters. The other code units are
  left as they are; JavaScript maps some of those above 127 as well, none of them to an
  ASCII letter that occurs in \<^verbatim>\<open>NULL\<close>.\<close>

definition toUpperChar :: "char \<Rightarrow> char" where
  "toUpperChar c =
     (let n = (of_char c :: nat) in if 97 \<le> n \<and> n \<le> 122 then char_of (n - 32) else c)"

definition toUpperCase :: "string \<Rightarrow> string" where
  "toUpperCase s = map toUpperChar s"

definition startsWith :: "string \<Rightarrow> string \<Rightarrow> bool" where
  "startsWith s p = (take (length p) s = p)"

definition endsWith :: "string \<Rightarrow> string \<Rightarrow> bool" where
  "endsWith s p = (length p \<le> length s \<and> drop (length s - length p) s = p)"

text \<open>\<^verbatim>\<open>s.substring(a, b)\<close>: both indices are clamped to the string and swapped when
  the first exceeds the second.\<close>

definition substring :: "string \<Rightarrow> int \<Rightarrow> int \<Rightarrow> string" where
  "substring s a b =
     (let n = int (length s);
          a' = max 0 (min a n);
          b' = max 0 (min b n);
          lo = min a' b';
          hi = max a' b'
      in take (nat (hi - lo)) (drop (nat lo) s))"

text \<open>\<^verbatim>\<open>s.includes(p)\<close>.\<close>

fun includesStr :: "string \<Rightarrow> string \<Rightarrow> bool" where
  "includesStr [] p = (p = [])"
| "includesStr (x # xs) p = (take (length p) (x # xs) = p \<or> includesStr xs p)"

text \<open>\<^verbatim>\<open>s.replace(/ab/g, r)\<close> for a pattern of two literal characters: every match,
  left to right, matches not overlapping.\<close>

fun replacePair :: "char \<Rightarrow> char \<Rightarrow> string \<Rightarrow> string \<Rightarrow> string" where
  "replacePair a b r (x # y # zs) =
     (if x = a \<and> y = b then r @ replacePair a b r zs else x # replacePair a b r (y # zs))"
| "replacePair a b r xs = xs"

section \<open>Numeric literals\<close>

definition isDecimalDigit :: "char \<Rightarrow> bool" where
  "isDecimalDigit c = (c \<in> set ''0123456789'')"

definition isSign :: "char \<Rightarrow> bool" where
  "isSign c = (c = CHR ''+'' \<or> c = CHR ''-'')"

definition digitsValue :: "string \<Rightarrow> nat" where
  "digitsValue ds = foldl (\<lambda>a c. 10 * a + (of_char c - 48)) 0 ds"

text \<open>The grammar \<^verbatim>\<open>StringNumericLiteral\<close> of ECMAScript, which \<^verbatim>\<open>Number(s)\<close> and
  so \<^verbatim>\<open>isNaN(s)\<close> apply to a string.\<close>

definition isExponentPart :: "string \<Rightarrow> bool" where
  "isExponentPart s =
     (case s of
        [] \<Rightarrow> False
      | e # t \<Rightarrow>
          (e = CHR ''e'' \<or> e = CHR ''E'') \<and>
          (let ds = (case t of [] \<Rightarrow> [] | c # r \<Rightarrow> if isSign c then r else t)
           in ds \<noteq> [] \<and> list_all isDecimalDigit ds))"

definition isStrUnsignedDecimalLiteral :: "string \<Rightarrow> bool" where
  "isStrUnsignedDecimalLiteral s =
     (s = ''Infinity'' \<or>
      (let ip = takeWhile isDecimalDigit s;
           r = dropWhile isDecimalDigit s
       in case r of
            [] \<Rightarrow> ip \<noteq> []
          | c # r1 \<Rightarrow>
              if c = CHR ''.''
              then (let fp = takeWhile isDecimalDigit r1;
                        r2 = dropWhile isDecimalDigit r1
                    in (ip \<noteq> [] \<or> fp \<noteq> []) \<and> (r2 = [] \<or> isExponentPart r2))
              else ip \<noteq> [] \<and> isExponentPart r))"

definition isStrDecimalLiteral :: "string \<Rightarrow> bool" where
  "isStrDecimalLiteral s =
     (case s of
        [] \<Rightarrow> False
      | c # r \<Rightarrow> if isSign c then isStrUnsignedDecimalLiteral r
                 else isStrUnsignedDecimalLiteral s)"

definition isNonDecimalIntegerLiteral :: "string \<Rightarrow> bool" where
  "isNonDecimalIntegerLiteral s =
     (case s of
        z # p # ds \<Rightarrow>
          z = CHR ''0'' \<and> ds \<noteq> [] \<and>
          ((p \<in> set ''bB'' \<and> list_all (\<lambda>c. c \<in> set ''01'') ds) \<or>
           (p \<in> set ''oO'' \<and> list_all (\<lambda>c. c \<in> set ''01234567'') ds) \<or>
           (p \<in> set ''xX'' \<and> list_all (\<lambda>c. c \<in> set ''0123456789abcdefABCDEF'') ds))
      | _ \<Rightarrow> False)"

text \<open>\<^verbatim>\<open>isNaN(s)\<close> for a string \<open>s\<close>: the string is trimmed; the empty string
  converts to 0, a numeric literal to its value, anything else to NaN.\<close>

definition isNaN :: "string \<Rightarrow> bool" where
  "isNaN s =
     (let t = trim s
      in \<not> (t = [] \<or> isStrDecimalLiteral t \<or> isNonDecimalIntegerLiteral t))"

text \<open>Splitting an optional sign off: the flag says whether it was a minus.\<close>

definition splitSign :: "string \<Rightarrow> bool \<times> string" where
  "splitSign s =
     (case s of
        [] \<Rightarrow> (False, [])
      | c # r \<Rightarrow> if c = CHR ''-'' then (True, r) else if c = CHR ''+'' then (False, r)
                 else (False, s))"

text \<open>\<^verbatim>\<open>parseInt(s, 10)\<close>: leading white space, an optional sign, then the longest
  run of decimal digits; NaN when there is none.\<close>

definition parseInt10 :: "string \<Rightarrow> jsnumber" where
  "parseInt10 s =
     (let (neg, u) = splitSign (dropWhile isWhiteSpace s);
          ds = takeWhile isDecimalDigit u
      in if ds = [] then NaN
         else Finite (if neg then - of_nat (digitsValue ds) else of_nat (digitsValue ds)))"

definition scale10 :: "rat \<Rightarrow> int \<Rightarrow> rat" where
  "scale10 m k = (if 0 \<le> k then m * 10 ^ nat k else m / 10 ^ nat (- k))"

text \<open>\<^verbatim>\<open>parseFloat(s)\<close>: leading white space, then the longest prefix that is a
  \<^verbatim>\<open>StrDecimalLiteral\<close>; NaN when there is none.\<close>

definition parseFloat :: "string \<Rightarrow> jsnumber" where
  "parseFloat s =
     (let (neg, u) = splitSign (dropWhile isWhiteSpace s)
      in if take 8 u = ''Infinity'' then (if neg then NegInfinity else PosInfinity)
         else
           let ip = takeWhile isDecimalDigit u;
               r = dropWhile isDecimalDigit u;
               (fp, r2) =
                 (case r of
                    [] \<Rightarrow> ([], [])
                  | c # r1 \<Rightarrow>
                      if c = CHR ''.''
                      then (takeWhile isDecimalDigit r1, dropWhile isDecimalDigit r1)
                      else ([], r))
           in if ip = [] \<and> fp = [] then NaN
              else
                let ex =
                      (case r2 of
                         [] \<Rightarrow> 0
                       | e # t \<Rightarrow>
                           if e = CHR ''e'' \<or> e = CHR ''E''
                           then (let (eneg, ds) = splitSign t;
                                     eds = takeWhile isDecimalDigit ds
                                 in if eds = [] then 0
                                    else if eneg then - int (digitsValue eds)
                                    else int (digitsValue eds))
                           else 0);
                    m = scale10 (of_nat (digitsValue (ip @ fp))) (ex - int (length fp))
                in Finite (if neg then - m else m))"

section \<open>The value lexer: \<^verbatim>\<open>processValue\<close>\<close>

definition unescape :: "string \<Rightarrow> string" where
  "unescape s =
     replacePair backslash backslash [backslash]
       (replacePair backslash dquote [dquote]
          (replacePair backslash squote [squote] s))"

definition processValue :: "string \<Rightarrow> jsval" where
  "processValue v =
     (if toUpperCase v = ''NULL'' then JNull
      else if (startsWith v [squote] \<and> endsWith v [squote]) \<or>
              (startsWith v [dquote] \<and> endsWith v [dquote])
      then JString (unescape (substring v 1 (int (length v) - 1)))
      else if \<not> isNaN v \<and> v \<noteq> []
      then (if CHR ''.'' \<in> set v then JNumber (parseFloat v) else JNumber (parseInt10 v))
      else JString v)"

section \<open>Field splitting: \<^verbatim>\<open>parseValuesComplex\<close>\<close>

text \<open>The variables of the scanning loop (\<open>vals\<close> is the source's \<^verbatim>\<open>values\<close>).
  \<open>stringChar\<close> is \<open>None\<close> for JavaScript's
  \<^verbatim>\<open>null\<close>.\<close>

record pv_state =
  vals :: "jsval list"
  currentValue :: string
  inString :: bool
  stringChar :: "char option"
  escaped :: bool

definition pv_init :: pv_state where
  "pv_init = \<lparr>vals = [], currentValue = [], inString = False, stringChar = None,
     escaped = False\<rparr>"

text \<open>One iteration of the loop body, in the order of the source's tests.\<close>

definition pv_step :: "pv_state \<Rightarrow> char \<Rightarrow> pv_state" where
  "pv_step st c =
     (if escaped st then st\<lparr>currentValue := currentValue st @ [c], escaped := False\<rparr>
      else if c = backslash then st\<lparr>escaped := True\<rparr>
      else if c = squote \<or> c = dquote then
        (if \<not> inString st then st\<lparr>inString := True, stringChar := Some c\<rparr>
         else if Some c = stringChar st then st\<lparr>inString := False, stringChar := None\<rparr>
         else st\<lparr>currentValue := currentValue st @ [c]\<rparr>)
      else if c = CHR '','' \<and> \<not> inString st then
        st\<lparr>vals := vals st @ [processValue (trim (currentValue st))], currentValue := []\<rparr>
      else st\<lparr>currentValue := currentValue st @ [c]\<rparr>)"

definition pv_finish :: "pv_state \<Rightarrow> jsval list" where
  "pv_finish st =
     (if trim (currentValue st) \<noteq> []
      then vals st @ [processValue (trim (currentValue st))]
      else vals st)"

definition parseValuesComplex :: "string \<Rightarrow> jsval list" where
  "parseValuesComplex rowText = pv_finish (foldl pv_step pv_init rowText)"

section \<open>Row splitting: \<^verbatim>\<open>splitInsertValues\<close>\<close>

record split_state =
  result :: "string list"
  current :: string
  depth :: int
  sInString :: bool
  sStringChar :: "char option"
  sEscaped :: bool

definition split_init :: split_state where
  "split_init = \<lparr>result = [], current = [], depth = 0, sInString = False,
     sStringChar = None, sEscaped = False\<rparr>"

text \<open>The string-literal test at the head of the loop body; it reads the escape flag left by
  the previous character.\<close>

definition split_quote :: "split_state \<Rightarrow> char \<Rightarrow> split_state" where
  "split_quote st c =
     (if (c = squote \<or> c = dquote) \<and> \<not> sEscaped st then
        (if \<not> sInString st then st\<lparr>sInString := True, sStringChar := Some c\<rparr>
         else if Some c = sStringChar st then st\<lparr>sInString := False, sStringChar := None\<rparr>
         else st)
      else st)"

definition split_paren :: "split_state \<Rightarrow> char \<Rightarrow> split_state" where
  "split_paren st c =
     (if c = CHR ''('' \<and> \<not> sInString st then st\<lparr>depth := depth st + 1\<rparr>
      else if c = CHR '')'' \<and> \<not> sInString st then st\<lparr>depth := depth st - 1\<rparr>
      else st)"

text \<open>The loop over \<^verbatim>\<open>valuesText[i]\<close>. The second argument is the text from index
  \<open>i\<close> on, so its tail is what \<^verbatim>\<open>valuesText[i + 1]\<close> and \<^verbatim>\<open>valuesText[i + 2]\<close>
  read; at a row separator the source adds 2 to \<open>i\<close>, which drops two more characters.\<close>

fun split_loop :: "split_state \<Rightarrow> string \<Rightarrow> split_state" where
  "split_loop st [] = st"
| "split_loop st (c # cs) =
     (let st1 = split_quote st c
      in if c = backslash \<and> \<not> sEscaped st1
         then split_loop (st1\<lparr>sEscaped := True, current := current st1 @ [c]\<rparr>) cs
         else
           let st2 = split_paren (st1\<lparr>sEscaped := False\<rparr>) c;
               st3 = st2\<lparr>current := current st2 @ [c]\<rparr>
           in if depth st3 = 0 \<and> \<not> sInString st3 \<and> c = CHR '')'' \<and>
                 take 2 cs = '',(''
              then split_loop (st3\<lparr>result := result st3 @ [current st3], current := []\<rparr>)
                     (drop 2 cs)
              else split_loop st3 cs)"

definition splitInsertValues :: "string \<Rightarrow> string list" where
  "splitInsertValues valuesText =
     (if \<not> includesStr valuesText ''),('' then [trim valuesText]
      else
        let st = split_loop split_init valuesText;
            res = (if current st \<noteq> [] then result st @ [current st] else result st)
        in if res = [] \<and> trim valuesText \<noteq> [] then res @ [trim valuesText] else res)"

section \<open>Zipping rows with the schema: \<^verbatim>\<open>extractTableData\<close>\<close>

type_synonym row = "string \<rightharpoonup> jsval"

text \<open>The loop \<^verbatim>\<open>for (i = 0; i < values.length; i++) rowData[columns[i]] = values[i]\<close>.
  It runs only under the guard \<open>length values \<le> length columns\<close>, so \<open>columns ! i\<close>
  is in range.\<close>

definition setColumn :: "string list \<Rightarrow> jsval list \<Rightarrow> nat \<Rightarrow> row \<Rightarrow> row" where
  "setColumn columns vs i rowData = rowData(columns ! i \<mapsto> vs ! i)"

definition buildRow :: "string list \<Rightarrow> jsval list \<Rightarrow> row" where
  "buildRow columns vs = fold (setColumn columns vs) [0..<length vs] Map.empty"

definition stripOuterParens :: "string \<Rightarrow> string" where
  "stripOuterParens rowText =
     (let t = trim rowText
      in if startsWith t ''('' \<and> endsWith t '')'' then substring t 1 (int (length t) - 1)
         else t)"

text \<open>The guard and the loop that build a Row from the values of one row text, the same in
  \<^verbatim>\<open>extractTableData\<close> and in the recovery pass of \<^verbatim>\<open>parseSqlDump\<close>: \<open>Some\<close> the
  row pushed to \<open>data\<close>, \<open>None\<close> when the guard skips the row.\<close>

definition zipRow :: "string list \<Rightarrow> jsval list \<Rightarrow> row option" where
  "zipRow columns vs =
     (if 0 < length vs \<and> length vs \<le> length columns then Some (buildRow columns vs) else None)"

text \<open>The body of the loop over the rows of one statement in \<^verbatim>\<open>extractTableData\<close>.\<close>

definition rowOfText :: "string list \<Rightarrow> string \<Rightarrow> row option" where
  "rowOfText columns rowText = zipRow columns (parseValuesComplex (stripOuterParens rowText))"

text \<open>The body of the recovery pass over the statements, given \<^verbatim>\<open>valuesMatch[1]\<close>.\<close>

definition rowOfStatement :: "string list \<Rightarrow> string \<Rightarrow> row option" where
  "rowOfStatement columns captured = zipRow columns (parseValuesComplex captured)"

definition rowsOfValuesText :: "string list \<Rightarrow> string \<Rightarrow> row list" where
  "rowsOfValuesText columns valuesText =
     List.map_filter (rowOfText columns) (splitInsertValues valuesText)"

text \<open>\<^verbatim>\<open>extractTableData\<close>, given the texts that the statement pattern captured
  (\<^verbatim>\<open>insertMatch[1]\<close> of each match, in order). An empty capture is skipped.\<close>

definition extractTableData :: "string list \<Rightarrow> string list \<Rightarrow> row list" where
  "extractTableData captures columns =
     concat (map (\<lambda>valuesText. if valuesText = [] then [] else rowsOfValuesText columns valuesText)
       captures)"

section \<open>The identifier mapper\<close>

text \<open>
  The module \<^verbatim>\<open>utils/uuid-mapper\<close> that the migrations import, in its version with the
  namespace constant, the reverse index and the consolidated \<^verbatim>\<open>listings\<close> table (the
  repository also holds an earlier version, which draws every identifier from \<^verbatim>\<open>uuidv4\<close>
  and has neither reverse index nor mirror; its guard, lookup, save and load are the ones modelled
  here without those parts). An object used as a
  dictionary is an association list in property order: \<^const>\<open>map_of\<close> reads a property,
  \<^const>\<open>AList.update\<close> assigns one (in place when the key exists, appended otherwise).
  The key \<^verbatim>\<open>_meta\<close> of \<^verbatim>\<open>idMappings\<close> is kept as a field of its own, so an
  entity type is any name other than \<^verbatim>\<open>_meta\<close>.
\<close>

type_synonym table = "(string \<times> string) list"

record meta =
  lastUpdated :: nat
  totalMappings :: nat

record mapper =
  idMappings :: "(string \<times> table) list"
  metaInfo :: meta
  reverseIdMappings :: "(string \<times> table) list"

text \<open>What the module takes from outside: the \<^verbatim>\<open>uuid\<close> package's name-based generator
  \<^verbatim>\<open>v5(name, namespace)\<close>, the random identifier that \<^verbatim>\<open>v4()\<close> returns at this
  call, and the clock read by \<^verbatim>\<open>new Date()\<close>. The package is not part of the
  repository; the general statements below hold for any generator, and the examples are
  evaluated in \<^verbatim>\<open>exampleEnv\<close>.\<close>

record env =
  uuidv5 :: "string \<Rightarrow> string \<Rightarrow> string"
  uuidv4 :: string
  now :: nat

definition UUID_NAMESPACE :: string where
  "UUID_NAMESPACE = ''6ba7b810-9dad-11d1-80b4-00c04fd430c8''"

definition listingEntities :: "string list" where
  "listingEntities = [''businesses'', ''franchise'', ''investors'', ''startups'', ''digital_assets'']"

text \<open>The old SQL id as the callers pass it: a field of a parsed row (an integer or a string),
  \<^verbatim>\<open>null\<close>, or \<^verbatim>\<open>undefined\<close> for a missing field.\<close>

datatype source_id = IdNull | IdUndefined | IdNumber int | IdString string

text \<open>The guard \<^verbatim>\<open>!oldId || oldId === 0\<close>: the falsy values of the type.\<close>

definition noReference :: "source_id \<Rightarrow> bool" where
  "noReference oldId =
     (case oldId of
        IdNull \<Rightarrow> True
      | IdUndefined \<Rightarrow> True
      | IdNumber n \<Rightarrow> n = 0
      | IdString s \<Rightarrow> s = [])"

fun decimal :: "nat \<Rightarrow> string" where
  "decimal n =
     (if n < 10 then [''0123456789'' ! n] else decimal (n div 10) @ [''0123456789'' ! (n mod 10)])"

declare decimal.simps [simp del]

text \<open>\<^verbatim>\<open>String(oldId)\<close>. An integer prints in decimal; that is what JavaScript prints for the
  safe integers, up to \<open>2\<^sup>5\<^sup>3 - 1\<close> in magnitude (beyond them not every integer is a number
  of its own, and from \<open>10\<^sup>2\<^sup>1\<close> on the notation has an exponent).\<close>

definition toString :: "source_id \<Rightarrow> string" where
  "toString oldId =
     (case oldId of
        IdNull \<Rightarrow> ''null''
      | IdUndefined \<Rightarrow> ''undefined''
      | IdNumber n \<Rightarrow> if n < 0 then CHR ''-'' # decimal (nat (- n)) else decimal (nat n)
      | IdString s \<Rightarrow> s)"

record options =
  deterministic :: bool
  updateReverse :: bool
  namespaceOverride :: "string option"
  entityPrefix :: string

definition defaultOptions :: options where
  "defaultOptions = \<lparr>deterministic = True, updateReverse = True, namespaceOverride = None,
     entityPrefix = []\<rparr>"

text \<open>\<^verbatim>\<open>m[entity]?.[id]\<close>, and the truthiness test applied to it: a missing property and
  the empty string are falsy.\<close>

definition lookupId :: "(string \<times> table) list \<Rightarrow> string \<Rightarrow> string \<Rightarrow> string option" where
  "lookupId m entity k = (case map_of m entity of None \<Rightarrow> None | Some t \<Rightarrow> map_of t k)"

definition truthy :: "string option \<Rightarrow> bool" where
  "truthy v = (case v of None \<Rightarrow> False | Some u \<Rightarrow> u \<noteq> [])"

text \<open>The test \<^verbatim>\<open>m[entity]\<close> for a table, \<^verbatim>\<open>if (!m[entity]) m[entity] = {}\<close>, and
  \<^verbatim>\<open>m[entity][k] = v\<close> on a table that exists.\<close>

definition hasTable :: "(string \<times> table) list \<Rightarrow> string \<Rightarrow> bool" where
  "hasTable m entity = (map_of m entity \<noteq> None)"

text \<open>An association list stands for an object when no key occurs twice in it.\<close>

definition isObject :: "(string \<times> 'v) list \<Rightarrow> bool" where
  "isObject m = distinct (map fst m)"

definition ensureTable :: "(string \<times> table) list \<Rightarrow> string \<Rightarrow> (string \<times> table) list" where
  "ensureTable m entity = (if \<not> hasTable m entity then AList.update entity [] m else m)"

definition setEntry ::
  "(string \<times> table) list \<Rightarrow> string \<Rightarrow> string \<Rightarrow> string \<Rightarrow> (string \<times> table) list" where
  "setEntry m entity k v =
     (case map_of m entity of
        None \<Rightarrow> m
      | Some t \<Rightarrow> AList.update entity (AList.update k v t) m)"

text \<open>The result of a call: the value returned (\<open>None\<close> for \<^verbatim>\<open>null\<close>), or the
  TypeError that assigning into a missing \<^verbatim>\<open>idMappings.listings\<close> raises.\<close>

datatype outcome = Returned "string option" | TypeError

text \<open>The mirror of a listing type into the consolidated \<^verbatim>\<open>listings\<close> table, shared by
  \<^verbatim>\<open>getOrCreateUUID\<close> and \<^verbatim>\<open>setUUID\<close>.\<close>

definition mirrorListing :: "bool \<Rightarrow> string \<Rightarrow> string \<Rightarrow> mapper \<Rightarrow> mapper option" where
  "mirrorListing upd k v st =
     (if \<not> hasTable (idMappings st) ''listings'' then None
      else
        let st1 = st\<lparr>idMappings := setEntry (idMappings st) ''listings'' k v\<rparr>
        in if upd
           then Some (st1\<lparr>reverseIdMappings :=
                  setEntry (ensureTable (reverseIdMappings st1) ''listings'') ''listings'' v k\<rparr>)
           else Some st1)"

definition storeMapping :: "env \<Rightarrow> bool \<Rightarrow> string \<Rightarrow> string \<Rightarrow> string \<Rightarrow> mapper \<Rightarrow> mapper" where
  "storeMapping e upd entity k v st =
     (let st1 = st\<lparr>idMappings := setEntry (idMappings st) entity k v\<rparr>;
          st2 = (if upd
                 then st1\<lparr>reverseIdMappings :=
                        setEntry (ensureTable (reverseIdMappings st1) entity) entity v k\<rparr>
                 else st1)
      in st2\<lparr>metaInfo := \<lparr>lastUpdated = now e,
                totalMappings = totalMappings (metaInfo st2) + 1\<rparr>\<rparr>)"

definition getOrCreateUUID ::
  "env \<Rightarrow> string \<Rightarrow> source_id \<Rightarrow> options \<Rightarrow> mapper \<Rightarrow> outcome \<times> mapper" where
  "getOrCreateUUID e entity oldId opts st =
     (if noReference oldId then (Returned None, st)
      else
        let k = toString oldId;
            st1 = st\<lparr>idMappings := ensureTable (idMappings st) entity\<rparr>
        in if truthy (lookupId (idMappings st1) entity k)
           then (Returned (lookupId (idMappings st1) entity k), st1)
           else
             let namespace =
                   (case namespaceOverride opts of
                      None \<Rightarrow> UUID_NAMESPACE
                    | Some ns \<Rightarrow> if ns = [] then UUID_NAMESPACE else ns);
                 seed = entityPrefix opts @ entity @ '':'' @ k;
                 newUuid = (if deterministic opts then uuidv5 e seed namespace else uuidv4 e);
                 st2 = storeMapping e (updateReverse opts) entity k newUuid st1
             in if entity \<in> set listingEntities
                then (case mirrorListing (updateReverse opts) k newUuid st2 of
                        None \<Rightarrow> (TypeError, st2)
                      | Some st3 \<Rightarrow> (Returned (Some newUuid), st3))
                else (Returned (Some newUuid), st2))"

definition getUUID :: "string \<Rightarrow> source_id \<Rightarrow> mapper \<Rightarrow> string option" where
  "getUUID entity oldId st =
     (if noReference oldId then None
      else
        let k = toString oldId
        in if truthy (lookupId (idMappings st) entity k) then lookupId (idMappings st) entity k
           else if entity \<in> set listingEntities \<and> truthy (lookupId (idMappings st) ''listings'' k)
           then lookupId (idMappings st) ''listings'' k
           else None)"

text \<open>\<^verbatim>\<open>setUUID\<close> returns nothing: \<open>Returned None\<close> stands for the plain return.\<close>

definition setUUID ::
  "env \<Rightarrow> string \<Rightarrow> source_id \<Rightarrow> string \<Rightarrow> bool \<Rightarrow> mapper \<Rightarrow> outcome \<times> mapper" where
  "setUUID e entity oldId uuid upd st =
     (if noReference oldId \<or> uuid = [] then (Returned None, st)
      else
        let k = toString oldId;
            st1 = st\<lparr>idMappings := ensureTable (idMappings st) entity\<rparr>;
            st2 = storeMapping e upd entity k uuid st1
        in if entity \<in> set listingEntities
           then (case mirrorListing upd k uuid st2 of
                   None \<Rightarrow> (TypeError, st2)
                 | Some st3 \<Rightarrow> (Returned None, st3))
           else (Returned None, st2))"

subsection \<open>Persistence\<close>

text \<open>The parsed content of a mappings file: the tables, and the \<^verbatim>\<open>_meta\<close> block when the
  file has one. \<^verbatim>\<open>JSON.stringify\<close> followed by \<^verbatim>\<open>JSON.parse\<close> gives back the same
  tables (strings under string keys), which is how writing and reading are modelled. The
  file system maps a path to the content of the file there.\<close>

record mappings_file =
  fileMappings :: "(string \<times> table) list"
  fileMeta :: "meta option"

type_synonym filesystem = "string \<rightharpoonup> mappings_file"

text \<open>\<^verbatim>\<open>Object.keys(t).length\<close>.\<close>

definition keyCount :: "table \<Rightarrow> nat" where
  "keyCount t = length (remdups (map fst t))"

definition saveMappingsToFile ::
  "env \<Rightarrow> string \<Rightarrow> filesystem \<Rightarrow> mapper \<Rightarrow> bool \<times> filesystem \<times> mapper" where
  "saveMappingsToFile e path fs st =
     (let st1 = st\<lparr>metaInfo := \<lparr>lastUpdated = now e,
                   totalMappings = sum_list (map (\<lambda>(entity, t). keyCount t) (idMappings st))\<rparr>\<rparr>
      in (True,
          fs(path \<mapsto> \<lparr>fileMappings = idMappings st1, fileMeta = Some (metaInfo st1)\<rparr>),
          st1))"

text \<open>\<^verbatim>\<open>Object.assign(target, source)\<close>: every property of the source, in order, is
  assigned to the target.\<close>

definition assign :: "(string \<times> 'v) list \<Rightarrow> (string \<times> 'v) list \<Rightarrow> (string \<times> 'v) list" where
  "assign target source = fold (\<lambda>(k, v) t. AList.update k v t) source target"

text \<open>The loop that rebuilds the reverse index from the forward tables.\<close>

definition rebuildReverse ::
  "(string \<times> table) list \<Rightarrow> (string \<times> table) list \<Rightarrow> (string \<times> table) list" where
  "rebuildReverse fwd rv =
     fold (\<lambda>(entity, t) r.
             fold (\<lambda>(k, uuid) r'. setEntry r' entity uuid k) t (ensureTable r entity))
       fwd rv"

definition loadMappingsFromFile :: "string \<Rightarrow> filesystem \<Rightarrow> mapper \<Rightarrow> bool \<times> mapper" where
  "loadMappingsFromFile path fs st =
     (case fs path of
        None \<Rightarrow> (False, st)
      | Some f \<Rightarrow>
          let m = assign (idMappings st) (fileMappings f);
              mt = (case fileMeta f of None \<Rightarrow> metaInfo st | Some x \<Rightarrow> x)
          in (True, st\<lparr>idMappings := m, metaInfo := mt,
                       reverseIdMappings := rebuildReverse m (reverseIdMappings st)\<rparr>))"

text \<open>The state of the module when it is first loaded: fifteen empty tables, the metadata
  block, and an empty reverse index.\<close>

definition entityNames :: "string list" where
  "entityNames = [''users'', ''businesses'', ''franchise'', ''investors'', ''listings'', ''plans'',
     ''reviews'', ''subscriptions'', ''transactions'', ''chatrooms'', ''messages'', ''industries'',
     ''sub_industries'', ''cities'', ''states'']"

definition freshMapper :: "nat \<Rightarrow> mapper" where
  "freshMapper t0 = \<lparr>idMappings = map (\<lambda>n. (n, [])) entityNames,
     metaInfo = \<lparr>lastUpdated = t0, totalMappings = 0\<rparr>, reverseIdMappings = []\<rparr>"

subsection \<open>Names and numbers on which the model is the code\<close>

text \<open>A table of the mapper is a plain object, so \<^verbatim>\<open>idMappings[entity][id]\<close> also finds what
  \<^verbatim>\<open>Object.prototype\<close> defines (under \<^verbatim>\<open>constructor\<close> a function, which is truthy and is
  returned as it is), and \<^verbatim>\<open>idMappings._meta\<close> is the metadata block, not a table.
  \<^const>\<open>lookupId\<close> reads the own entries of the tables: it is the code's lookup for every
  entity type and every key other than these names. \<^const>\<open>toString\<close> is the code's
  \<^verbatim>\<open>String\<close> on the strings and on the safe integers (\<^verbatim>\<open>Number.isSafeInteger\<close>).\<close>

definition inheritedNames :: "string list" where
  "inheritedNames = [''constructor'', ''__proto__'', ''hasOwnProperty'', ''isPrototypeOf'',
     ''propertyIsEnumerable'', ''toLocaleString'', ''toString'', ''valueOf'', ''__defineGetter__'',
     ''__defineSetter__'', ''__lookupGetter__'', ''__lookupSetter__'']"

definition ownEntity :: "string \<Rightarrow> bool" where
  "ownEntity entity = (entity \<notin> set inheritedNames \<and> entity \<noteq> ''_meta'')"

definition isSafeInteger :: "int \<Rightarrow> bool" where
  "isSafeInteger n = (\<bar>n\<bar> \<le> 2 ^ 53 - 1)"

definition ownId :: "source_id \<Rightarrow> bool" where
  "ownId oldId =
     (case oldId of
        IdNumber n \<Rightarrow> isSafeInteger n
      | IdString s \<Rightarrow> s \<notin> set inheritedNames
      | _ \<Rightarrow> True)"

subsection \<open>Calls served one after the other\<close>

text \<open>\<^verbatim>\<open>getOrCreateUUID\<close> is a synchronous function: there is no \<^verbatim>\<open>await\<close> between its
  lookup and its store, and a JavaScript job runs to completion. Calls issued by concurrent
  asynchronous tasks (the transforms that \<^verbatim>\<open>processBatch\<close> awaits, the batches started
  together under \<^verbatim>\<open>Promise.all\<close>) are therefore served one whole call after the other, in
  the order in which the event loop runs them. A call is recorded with the clock and the
  generators it meets; \<open>serve\<close> runs a list of calls in its order and returns what each caller
  gets, with the state left behind. What holds for every list holds for every order.\<close>

record call =
  callEnv :: env
  callEntity :: string
  callId :: source_id
  callOptions :: options

definition runCall :: "call \<Rightarrow> mapper \<Rightarrow> outcome \<times> mapper" where
  "runCall c st = getOrCreateUUID (callEnv c) (callEntity c) (callId c) (callOptions c) st"

fun serve :: "call list \<Rightarrow> mapper \<Rightarrow> outcome list \<times> mapper" where
  "serve [] st = ([], st)"
| "serve (c # cs) st =
     (case runCall c st of (r, st1) \<Rightarrow> (case serve cs st1 of (rs, st2) \<Rightarrow> (r # rs, st2)))"

text \<open>A call is within the names and numbers above.\<close>

definition inModel :: "call \<Rightarrow> bool" where
  "inModel c = (ownEntity (callEntity c) \<and> ownId (callId c))"

text \<open>Which calls touch the entry of a pair: a call for the pair itself, and, when the pair's type
  is \<^verbatim>\<open>listings\<close>, a call for a listing type with the same key, whose mirror is written into
  the pair's slot. A call for the pair is the same request when it has the default options and
  meets the same name-based generator.\<close>

definition namesPair :: "string \<Rightarrow> source_id \<Rightarrow> call \<Rightarrow> bool" where
  "namesPair entity oldId c =
     (\<not> noReference (callId c) \<and> callEntity c = entity \<and> toString (callId c) = toString oldId)"

definition mirrorsInto :: "string \<Rightarrow> source_id \<Rightarrow> call \<Rightarrow> bool" where
  "mirrorsInto entity oldId c =
     (\<not> noReference (callId c) \<and> entity = ''listings'' \<and> callEntity c \<in> set listingEntities \<and>
      toString (callId c) = toString oldId)"

definition sameRequest :: "env \<Rightarrow> call \<Rightarrow> bool" where
  "sameRequest e c = (callOptions c = defaultOptions \<and> uuidv5 (callEnv c) = uuidv5 e)"

text \<open>The number of entries that a table holds under a key, and the call
  \<^verbatim>\<open>getOrCreateUUID('listings', oldId)\<close> of a caller.\<close>

definition entryCount :: "(string \<times> table) list \<Rightarrow> string \<Rightarrow> string \<Rightarrow> nat" where
  "entryCount m entity k =
     (case map_of m entity of None \<Rightarrow> 0 | Some t \<Rightarrow> length (filter (\<lambda>p. fst p = k) t))"


section \<open>Shapes of field tokens\<close>

text \<open>Predicates on the text of a row, used to state what the field scan does. A plain
  character is one the scan only appends. A row prefix ends outside a string when its scan stops
  neither inside a string literal nor after an escape character; a field starts at the beginning
  of the row text and after each comma that the scan meets outside a string.\<close>

definition plainChar :: "char \<Rightarrow> bool" where
  "plainChar c = (c \<noteq> backslash \<and> c \<noteq> squote \<and> c \<noteq> dquote \<and> c \<noteq> CHR '','')"

definition outsideString :: "string \<Rightarrow> bool" where
  "outsideString r =
     (let st = foldl pv_step pv_init r in \<not> inString st \<and> \<not> escaped st)"

definition atFieldStart :: "string \<Rightarrow> bool" where
  "atFieldStart p = (p = [] \<or> (last p = CHR '','' \<and> outsideString (butlast p)))"

text \<open>A blank field token: white space and quoted runs of white space, in any number and
  order, each quoted run closed by the quote that opened it. Nothing at all, \<^verbatim>\<open>''\<close>,
  \<^verbatim>\<open>' '\<close> and \<^verbatim>\<open> "" \<close> are blank; without its quotes such a token is empty or white
  space only.\<close>

fun blankField :: "string \<Rightarrow> bool" and blankQuoted :: "char \<Rightarrow> string \<Rightarrow> bool" where
  "blankField [] = True"
| "blankField (c # cs) =
     (if c = squote \<or> c = dquote then blankQuoted c cs else isWhiteSpace c \<and> blankField cs)"
| "blankQuoted q [] = False"
| "blankQuoted q (c # cs) = (if c = q then blankField cs else isWhiteSpace c \<and> blankQuoted q cs)"

section \<open>Inputs of the examples\<close>

text \<open>The value list \<^verbatim>\<open>(1,'a,b',NULL),(2,'c''d',3)\<close> of a two-row statement.\<close>

definition exampleValues :: string where
  "exampleValues = ''(1,'a,b',NULL),(2,'c'' @ [squote, squote] @ ''d',3)''"

text \<open>The token \<^verbatim>\<open>'O\'Brien'\<close>, with its quotes and its backslash.\<close>

definition exampleEscaped :: string where
  "exampleEscaped = squote # ''O'' @ [backslash, squote] @ ''Brien'' @ [squote]"


text \<open>An environment for evaluating examples. Its name-based generator is a stand-in that
  joins namespace and name; it is not the hash of the \<^verbatim>\<open>uuid\<close> package.\<close>

definition exampleEnv :: env where
  "exampleEnv = \<lparr>uuidv5 = (\<lambda>name namespace. namespace @ ''/'' @ name),
     uuidv4 = ''00000000-0000-4000-8000-000000000000'', now = 1\<rparr>"

text \<open>A mappings file that holds one entry, for the user with id 2.\<close>

definition exampleFile :: mappings_file where
  "exampleFile = \<lparr>fileMappings = [(''users'', [(''2'', ''id-2'')])], fileMeta = None\<rparr>"

text \<open>Calls by other tasks between two calls for listing 5: a business with another id, a
  user with the same id, a user with a random identifier, and listing 5 itself once more.\<close>

definition exampleTraffic :: "call list" where
  "exampleTraffic =
     [\<lparr>callEnv = exampleEnv, callEntity = ''businesses'', callId = IdNumber 7,
        callOptions = defaultOptions\<rparr>,
      \<lparr>callEnv = exampleEnv\<lparr>now := 2\<rparr>, callEntity = ''users'', callId = IdNumber 5,
        callOptions = defaultOptions\<rparr>,
      \<lparr>callEnv = exampleEnv\<lparr>now := 3\<rparr>, callEntity = ''users'', callId = IdString ''6'',
        callOptions = defaultOptions\<lparr>deterministic := False\<rparr>\<rparr>,
      \<lparr>callEnv = exampleEnv\<lparr>now := 4\<rparr>, callEntity = ''listings'', callId = IdNumber 5,
        callOptions = defaultOptions\<rparr>]"


section \<open>The value lexer on quoted and numeric tokens\<close>

lemma replacePair_absent: "a \<notin> set s \<Longrightarrow> replacePair a b r s = s"
  by (induction a b r s rule: replacePair.induct) auto

lemma unescape_plain: "backslash \<notin> set s \<Longrightarrow> unescape s = s"
  by (simp add: unescape_def replacePair_absent)

lemma dropWhile_keeps: "x \<in> set xs \<Longrightarrow> \<not> P x \<Longrightarrow> x \<in> set (dropWhile P xs)"
  by (induction xs) auto

lemma trim_keeps: "x \<in> set s \<Longrightarrow> \<not> isWhiteSpace x \<Longrightarrow> x \<in> set (trim s)"
  by (simp add: trim_def dropWhile_keeps)

lemma class_plain:
  "list_all (\<lambda>c. c \<in> set cs) ds \<Longrightarrow> backslash \<notin> set cs \<Longrightarrow> backslash \<notin> set ds"
  by (auto simp: list_all_iff)

lemma not_digit: "\<not> isDecimalDigit backslash"
  by (simp add: isDecimalDigit_def)

lemma digits_all_plain: "list_all isDecimalDigit ds \<Longrightarrow> backslash \<notin> set ds"
  using not_digit by (auto simp: list_all_iff)

lemma isExponentPart_plain:
  assumes "isExponentPart s" shows "backslash \<notin> set s"
proof (cases s)
  case Nil
  with assms show ?thesis by (simp add: isExponentPart_def)
next
  case outer: (Cons e t)
  with assms have e: "e = CHR ''e'' \<or> e = CHR ''E''"
    by (simp add: isExponentPart_def)
  have "backslash \<notin> set t"
  proof (cases t)
    case Nil
    then show ?thesis by simp
  next
    case (Cons c r)
    show ?thesis
    proof (cases "isSign c")
      case True
      with assms outer Cons have "list_all isDecimalDigit r"
        by (simp add: isExponentPart_def)
      then have "backslash \<notin> set r" by (rule digits_all_plain)
      moreover from True have "c \<noteq> backslash" by (auto simp: isSign_def)
      ultimately show ?thesis using Cons by simp
    next
      case False
      with assms outer Cons have "list_all isDecimalDigit t"
        by (simp add: isExponentPart_def)
      then show ?thesis by (rule digits_all_plain)
    qed
  qed
  with e outer show ?thesis by auto
qed

lemma digits_plain: "backslash \<notin> set (takeWhile isDecimalDigit s)"
  using not_digit by (auto dest: set_takeWhileD)

lemma split_digits: "set s = set (takeWhile isDecimalDigit s) \<union> set (dropWhile isDecimalDigit s)"
  by (metis set_append takeWhile_dropWhile_id)

lemma rest_plain:
  "backslash \<notin> set (dropWhile isDecimalDigit s) \<Longrightarrow> backslash \<notin> set s"
  using split_digits [of s] digits_plain [of s] by blast

lemma unsigned_plain:
  assumes "isStrUnsignedDecimalLiteral s" shows "backslash \<notin> set s"
proof (cases "s = ''Infinity''")
  case True
  then show ?thesis by simp
next
  case False
  define r where "r = dropWhile isDecimalDigit s"
  from assms False
  have body: "case r of [] \<Rightarrow> takeWhile isDecimalDigit s \<noteq> []
      | c # r1 \<Rightarrow>
          if c = CHR ''.''
          then (takeWhile isDecimalDigit s \<noteq> [] \<or> takeWhile isDecimalDigit r1 \<noteq> []) \<and>
               (dropWhile isDecimalDigit r1 = [] \<or> isExponentPart (dropWhile isDecimalDigit r1))
          else takeWhile isDecimalDigit s \<noteq> [] \<and> isExponentPart r"
    unfolding isStrUnsignedDecimalLiteral_def Let_def r_def by blast
  have "backslash \<notin> set r"
  proof (cases r)
    case Nil
    then show ?thesis by simp
  next
    case (Cons c r1)
    show ?thesis
    proof (cases "c = CHR ''.''")
      case True
      define r2 where "r2 = dropWhile isDecimalDigit r1"
      from body Cons True have "r2 = [] \<or> isExponentPart r2"
        unfolding r2_def by (simp del: dropWhile_eq_Nil_conv)
      then have "backslash \<notin> set r2"
        using isExponentPart_plain by fastforce
      then have "backslash \<notin> set r1" unfolding r2_def by (rule rest_plain)
      with True Cons show ?thesis by simp
    next
      case notdot: False
      with body Cons have "isExponentPart r" by simp
      then show ?thesis by (rule isExponentPart_plain)
    qed
  qed
  then show ?thesis unfolding r_def by (rule rest_plain)
qed

lemma decimal_plain:
  assumes "isStrDecimalLiteral s" shows "backslash \<notin> set s"
proof (cases s)
  case Nil
  then show ?thesis by simp
next
  case (Cons c r)
  show ?thesis
  proof (cases "isSign c")
    case True
    with assms Cons have "isStrUnsignedDecimalLiteral r" by (simp add: isStrDecimalLiteral_def)
    then have "backslash \<notin> set r" by (rule unsigned_plain)
    moreover from True have "c \<noteq> backslash" by (auto simp: isSign_def)
    ultimately show ?thesis using Cons by simp
  next
    case False
    with assms Cons have "isStrUnsignedDecimalLiteral s" by (simp add: isStrDecimalLiteral_def)
    then show ?thesis by (rule unsigned_plain)
  qed
qed

lemma nondecimal_plain:
  assumes "isNonDecimalIntegerLiteral s" shows "backslash \<notin> set s"
proof (cases s)
  case Nil
  with assms show ?thesis by (simp add: isNonDecimalIntegerLiteral_def)
next
  case c1: (Cons z t)
  show ?thesis
  proof (cases t)
    case Nil
    with assms c1 show ?thesis by (simp add: isNonDecimalIntegerLiteral_def)
  next
    case (Cons p ds)
    have body:
      "z = CHR ''0'' \<and> ds \<noteq> [] \<and>
       ((p \<in> set ''bB'' \<and> list_all (\<lambda>c. c \<in> set ''01'') ds) \<or>
        (p \<in> set ''oO'' \<and> list_all (\<lambda>c. c \<in> set ''01234567'') ds) \<or>
        (p \<in> set ''xX'' \<and> list_all (\<lambda>c. c \<in> set ''0123456789abcdefABCDEF'') ds))"
      using assms unfolding isNonDecimalIntegerLiteral_def c1 Cons list.case .
    have b1: "backslash \<notin> set ''bB''" and b2: "backslash \<notin> set ''oO''"
      and b3: "backslash \<notin> set ''xX''" and d1: "backslash \<notin> set ''01''"
      and d2: "backslash \<notin> set ''01234567''"
      and d3: "backslash \<notin> set ''0123456789abcdefABCDEF''"
      by simp_all
    from body have z: "z \<noteq> backslash" by simp
    from body have "p \<noteq> backslash \<and> backslash \<notin> set ds"
      using b1 b2 b3 class_plain [OF _ d1] class_plain [OF _ d2] class_plain [OF _ d3]
      by blast
    with z show ?thesis unfolding c1 Cons by auto
  qed
qed

lemma numeric_plain: assumes "\<not> isNaN s" shows "backslash \<notin> set s"
proof
  assume b: "backslash \<in> set s"
  then have t: "backslash \<in> set (trim s)"
    by (rule trim_keeps) (simp add: isWhiteSpace_def)
  then have "trim s \<noteq> []" by auto
  with assms have "isStrDecimalLiteral (trim s) \<or> isNonDecimalIntegerLiteral (trim s)"
    by (simp add: isNaN_def Let_def)
  with t show False using decimal_plain nondecimal_plain by blast
qed

lemma processValue_quoted:
  assumes "q = squote \<or> q = dquote"
  shows "processValue (q # s @ [q]) = JString (unescape s)"
proof -
  have up: "toUpperCase (q # s @ [q]) \<noteq> ''NULL''"
    using assms by (auto simp: toUpperCase_def toUpperChar_def)
  have sw: "startsWith (q # s @ [q]) [q]" by (simp add: startsWith_def)
  have ew: "endsWith (q # s @ [q]) [q]" by (simp add: endsWith_def)
  have sub: "substring (q # s @ [q]) 1 (int (length (q # s @ [q])) - 1) = s"
    by (simp add: substring_def Let_def)
  show ?thesis
    unfolding processValue_def using assms up sw ew sub by auto
qed

lemma processValue_null_iff: "processValue v = JNull \<longleftrightarrow> toUpperCase v = ''NULL''"
  by (simp add: processValue_def)

text \<open>
  Claim C2. The value lexer maps \<^verbatim>\<open>NULL\<close> in any letter case to null (and nothing else
  to null), the token \<^verbatim>\<open>'O\'Brien'\<close> to the string \<^verbatim>\<open>O'Brien\<close>, \<^verbatim>\<open>42\<close> to
  the integer 42, \<^verbatim>\<open>3.14\<close> to the number 3.14, and \<^verbatim>\<open>'42'\<close> to the string
  \<^verbatim>\<open>42\<close>; every token that the lexer would coerce to a number without quotes is, between
  single or double quotes, lexed to the string of its characters.
\<close>

theorem processValue_literals:
  "processValue ''NULL'' = JNull \<and> processValue ''null'' = JNull \<and>
   processValue ''Null'' = JNull \<and> processValue ''nuLL'' = JNull \<and>
   (\<forall>v. processValue v = JNull \<longleftrightarrow> toUpperCase v = ''NULL'') \<and>
   processValue exampleEscaped = JString ''O'Brien'' \<and>
   processValue ''42'' = JNumber (Finite 42) \<and>
   processValue ''3.14'' = JNumber (Finite (314 / 100)) \<and>
   processValue (squote # ''42'' @ [squote]) = JString ''42'' \<and>
   (\<forall>s q. \<not> isNaN s \<and> (q = squote \<or> q = dquote) \<longrightarrow>
      processValue (q # s @ [q]) = JString s)"
proof -
  have nulls: "processValue ''NULL'' = JNull" "processValue ''null'' = JNull"
    "processValue ''Null'' = JNull" "processValue ''nuLL'' = JNull"
    by code_simp+
  have esc: "processValue exampleEscaped = JString ''O'Brien''"
    by code_simp
  have nums: "processValue ''42'' = JNumber (Finite 42)"
    "processValue ''3.14'' = JNumber (Finite (314 / 100))"
    by code_simp+
  have q42: "processValue (squote # ''42'' @ [squote]) = JString ''42''"
    by code_simp
  have quoted: "processValue (q # s @ [q]) = JString s"
    if "\<not> isNaN s" "q = squote \<or> q = dquote" for s q
    using that by (simp add: processValue_quoted unescape_plain numeric_plain)
  show ?thesis
    using nulls esc nums q42 quoted processValue_null_iff by blast
qed

theorem processValue_literals_witness:
  "\<not> isNaN ''-12.5e3'' \<and> (squote = squote \<or> squote = dquote) \<and>
   processValue (squote # ''-12.5e3'' @ [squote]) = JString ''-12.5e3''"
proof -
  have h: "\<not> isNaN ''-12.5e3''" by code_simp
  from processValue_literals
  have "\<forall>s q. \<not> isNaN s \<and> (q = squote \<or> q = dquote) \<longrightarrow>
      processValue (q # s @ [q]) = JString s"
    by blast
  with h show ?thesis by blast
qed

text \<open>Inside a row the field scan consumes the quotes before the lexer is called, so there a
  quoted numeral reaches the lexer bare and is coerced, and a quoted \<^verbatim>\<open>NULL\<close> becomes
  null.\<close>

lemma quoted_numeral_in_row:
  "parseValuesComplex (squote # ''42'' @ [squote]) = [JNumber (Finite 42)] \<and>
   parseValuesComplex (squote # ''NULL'' @ [squote]) = [JNull]"
  by code_simp

section \<open>Row splitting on the two-row example\<close>

text \<open>
  Claim C4, evaluated on the code. On \<^verbatim>\<open>(1,'a,b',NULL),(2,'c''d',3)\<close> the splitter
  returns two row texts: the comma inside the quoted string causes no split and the doubled
  quote ends no row early. The first row text is \<^verbatim>\<open>(1,'a,b',NULL)\<close>, with both its
  parentheses; the second is \<^verbatim>\<open>2,'c''d',3)\<close>: the comma and the opening parenthesis of
  the separator are skipped, its closing parenthesis is not. The caller strips parentheses
  only from a text that has both, so the second row keeps the closing one, and its last
  field is lexed to the string \<^verbatim>\<open>3)\<close> instead of the integer 3.
\<close>

theorem splitInsertValues_example:
  "splitInsertValues exampleValues =
     [''(1,'a,b',NULL)'', ''2,'c'' @ [squote, squote] @ ''d',3)''] \<and>
   map stripOuterParens (splitInsertValues exampleValues) =
     [''1,'a,b',NULL'', ''2,'c'' @ [squote, squote] @ ''d',3)''] \<and>
   map (parseValuesComplex \<circ> stripOuterParens) (splitInsertValues exampleValues) =
     [[JNumber (Finite 1), JString ''a,b'', JNull],
      [JNumber (Finite 2), JString ''cd'', JString ''3)'']]"
  by code_simp

section \<open>Empty fields in the field scan\<close>

lemma whitespace_plain: "isWhiteSpace c \<Longrightarrow> plainChar c"
  by (auto simp: isWhiteSpace_def plainChar_def)

lemma pv_step_plain:
  "plainChar c \<Longrightarrow> \<not> escaped st \<Longrightarrow> pv_step st c = st\<lparr>currentValue := currentValue st @ [c]\<rparr>"
  by (simp add: pv_step_def plainChar_def)

lemma pv_scan_plain:
  "list_all plainChar w \<Longrightarrow> \<not> escaped st \<Longrightarrow>
   foldl pv_step st w = st\<lparr>currentValue := currentValue st @ w\<rparr>"
proof (induction w arbitrary: st)
  case Nil
  then show ?case by simp
next
  case (Cons c w)
  then show ?case by (simp add: pv_step_plain)
qed

lemma pv_step_comma:
  "\<not> escaped st \<Longrightarrow> \<not> inString st \<Longrightarrow>
   pv_step st (CHR '','') =
     st\<lparr>vals := vals st @ [processValue (trim (currentValue st))], currentValue := []\<rparr>"
  by (simp add: pv_step_def)

lemma pv_step_vals:
  "pv_step (st\<lparr>vals := V @ vals st\<rparr>) c = (pv_step st c)\<lparr>vals := V @ vals (pv_step st c)\<rparr>"
  by (simp add: pv_step_def)

lemma pv_scan_vals:
  "foldl pv_step (st\<lparr>vals := V @ vals st\<rparr>) t =
   (foldl pv_step st t)\<lparr>vals := V @ vals (foldl pv_step st t)\<rparr>"
proof (induction t arbitrary: st)
  case Nil
  then show ?case by simp
next
  case (Cons c t)
  show ?case by (simp add: pv_step_vals Cons.IH)
qed

lemma pv_finish_vals:
  "pv_finish (st\<lparr>vals := V @ vals st\<rparr>) = V @ pv_finish st"
  by (simp add: pv_finish_def)

lemma pv_step_inv:
  "inString st = (stringChar st \<noteq> None) \<Longrightarrow>
   inString (pv_step st c) = (stringChar (pv_step st c) \<noteq> None)"
  by (auto simp: pv_step_def)

lemma pv_scan_inv: "inString (foldl pv_step pv_init r) = (stringChar (foldl pv_step pv_init r) \<noteq> None)"
proof (induction r rule: rev_induct)
  case Nil
  then show ?case by (simp add: pv_init_def)
next
  case (snoc c r)
  then show ?case by (simp add: pv_step_inv)
qed

lemma trim_whitespace:
  assumes "list_all isWhiteSpace w" shows "trim w = []"
proof -
  from assms have d: "dropWhile isWhiteSpace w = []" by (induction w) simp_all
  show ?thesis unfolding trim_def d by simp
qed

text \<open>The scan of a blank field token only adds white space to the current value.\<close>

lemma blank_scan:
  "blankField f \<Longrightarrow> \<not> escaped st \<Longrightarrow> \<not> inString st \<Longrightarrow> stringChar st = None \<Longrightarrow>
     \<exists>w. list_all isWhiteSpace w \<and>
         foldl pv_step st f = st\<lparr>currentValue := currentValue st @ w\<rparr>"
  "blankQuoted q f \<Longrightarrow> q = squote \<or> q = dquote \<Longrightarrow> \<not> escaped st \<Longrightarrow> inString st \<Longrightarrow>
   stringChar st = Some q \<Longrightarrow>
     \<exists>w. list_all isWhiteSpace w \<and>
         foldl pv_step st f =
           st\<lparr>currentValue := currentValue st @ w, inString := False, stringChar := None\<rparr>"
proof (induction f and q f arbitrary: st and st rule: blankField_blankQuoted.induct)
  case 1
  have "list_all isWhiteSpace []" by simp
  moreover have "foldl pv_step st [] = st\<lparr>currentValue := currentValue st @ []\<rparr>" by simp
  ultimately show ?case by blast
next
  case (2 c cs)
  show ?case
  proof (cases "c = squote \<or> c = dquote")
    case True
    let ?s = "st\<lparr>inString := True, stringChar := Some c\<rparr>"
    from True 2(4,5) have step: "pv_step st c = ?s"
      by (auto simp: pv_step_def)
    from 2(3) True have b: "blankQuoted c cs" by simp
    from 2(1) [OF True b True, of ?s] 2(4)
    obtain w where w: "list_all isWhiteSpace w"
      and f: "foldl pv_step ?s cs =
        ?s\<lparr>currentValue := currentValue ?s @ w, inString := False, stringChar := None\<rparr>"
      by auto
    have "foldl pv_step st (c # cs) = st\<lparr>currentValue := currentValue st @ w\<rparr>"
      using step f 2(5,6) by simp
    with w show ?thesis by blast
  next
    case False
    with 2(3) have ws: "isWhiteSpace c" and b: "blankField cs" by simp_all
    let ?s = "st\<lparr>currentValue := currentValue st @ [c]\<rparr>"
    have step: "pv_step st c = ?s"
      using whitespace_plain [OF ws] 2(4) by (rule pv_step_plain)
    from 2(2) [OF False b, of ?s] 2(4,5,6)
    obtain w where w: "list_all isWhiteSpace w"
      and f: "foldl pv_step ?s cs = ?s\<lparr>currentValue := currentValue ?s @ w\<rparr>"
      by auto
    have "foldl pv_step st (c # cs) = st\<lparr>currentValue := currentValue st @ (c # w)\<rparr>"
      using step f by simp
    moreover have "list_all isWhiteSpace (c # w)" using ws w by simp
    ultimately show ?thesis by blast
  qed
next
  case (3 q)
  then show ?case by simp
next
  case (4 q c cs)
  show ?case
  proof (cases "c = q")
    case True
    let ?s = "st\<lparr>inString := False, stringChar := None\<rparr>"
    from True 4(4,5,6,7) have step: "pv_step st c = ?s"
      by (auto simp: pv_step_def)
    from 4(3) True have b: "blankField cs" by simp
    from 4(1) [OF True b, of ?s] 4(5)
    obtain w where w: "list_all isWhiteSpace w"
      and f: "foldl pv_step ?s cs = ?s\<lparr>currentValue := currentValue ?s @ w\<rparr>"
      by auto
    have "foldl pv_step st (c # cs) =
        st\<lparr>currentValue := currentValue st @ w, inString := False, stringChar := None\<rparr>"
      using step f by simp
    with w show ?thesis by blast
  next
    case False
    with 4(3) have ws: "isWhiteSpace c" and b: "blankQuoted q cs" by simp_all
    let ?s = "st\<lparr>currentValue := currentValue st @ [c]\<rparr>"
    have step: "pv_step st c = ?s"
      using whitespace_plain [OF ws] 4(5) by (rule pv_step_plain)
    from 4(2) [OF False b 4(4), of ?s] 4(5,6,7)
    obtain w where w: "list_all isWhiteSpace w"
      and f: "foldl pv_step ?s cs =
        ?s\<lparr>currentValue := currentValue ?s @ w, inString := False, stringChar := None\<rparr>"
      by auto
    have "foldl pv_step st (c # cs) =
        st\<lparr>currentValue := currentValue st @ (c # w), inString := False, stringChar := None\<rparr>"
      using step f by simp
    moreover have "list_all isWhiteSpace (c # w)" using ws w by simp
    ultimately show ?thesis by blast
  qed
qed

lemma not_blank_trim: "\<not> list_all isWhiteSpace x \<Longrightarrow> trim x \<noteq> []"
proof -
  assume "\<not> list_all isWhiteSpace x"
  then obtain c where "c \<in> set x" "\<not> isWhiteSpace c" by (auto simp: list_all_iff)
  then have "c \<in> set (trim x)" by (rule trim_keeps)
  then show ?thesis by auto
qed

lemma processValue_empty: "processValue [] = JString []"
  by code_simp

lemma vals_pv_init: "vals pv_init = []"
  by (simp add: pv_init_def)

lemma field_start_state:
  assumes "\<not> escaped st" "\<not> inString st" "stringChar st = None"
  shows "pv_step st (CHR '','') =
     pv_init\<lparr>vals := (vals st @ [processValue (trim (currentValue st))]) @ vals pv_init\<rparr>"
  by (rule pv_state.equality) (use assms in \<open>simp_all add: pv_step_def pv_init_def\<close>)

text \<open>Scanning from the start of a field, with the values \<open>V\<close> pushed so far.\<close>

lemma from_field_start_blank:
  assumes "blankField f"
  shows "pv_finish (foldl pv_step (pv_init\<lparr>vals := V @ vals pv_init\<rparr>) f) = V"
    and "pv_finish (foldl pv_step (pv_init\<lparr>vals := V @ vals pv_init\<rparr>) (f @ '','' @ t)) =
           V @ JString [] # parseValuesComplex t"
proof -
  let ?S = "pv_init\<lparr>vals := V @ vals pv_init\<rparr>"
  have S: "\<not> escaped ?S" "\<not> inString ?S" "stringChar ?S = None" "currentValue ?S = []"
    by (simp_all add: pv_init_def)
  from blank_scan(1) [OF assms S(1-3)] obtain w where
    w: "list_all isWhiteSpace w" and sc: "foldl pv_step ?S f = ?S\<lparr>currentValue := w\<rparr>"
    using S(4) by auto
  have tw: "trim w = []" using w by (rule trim_whitespace)
  show "pv_finish (foldl pv_step ?S f) = V"
    unfolding sc by (simp add: pv_finish_def tw vals_pv_init)
  have "pv_step (?S\<lparr>currentValue := w\<rparr>) (CHR '','') =
      pv_init\<lparr>vals := (V @ [JString []]) @ vals pv_init\<rparr>"
    by (subst field_start_state) (simp_all add: tw processValue_empty pv_init_def)
  then have "foldl pv_step ?S (f @ '','' @ t) =
      foldl pv_step (pv_init\<lparr>vals := (V @ [JString []]) @ vals pv_init\<rparr>) t"
    by (simp add: sc)
  also have "\<dots> = (foldl pv_step pv_init t)\<lparr>vals := (V @ [JString []]) @ vals (foldl pv_step pv_init t)\<rparr>"
    by (rule pv_scan_vals)
  finally have f: "foldl pv_step ?S (f @ '','' @ t) =
      (foldl pv_step pv_init t)\<lparr>vals := (V @ [JString []]) @ vals (foldl pv_step pv_init t)\<rparr>" .
  show "pv_finish (foldl pv_step ?S (f @ '','' @ t)) = V @ JString [] # parseValuesComplex t"
    unfolding f pv_finish_vals parseValuesComplex_def by simp
qed

lemma from_field_start_plain:
  assumes "list_all plainChar x" "trim x \<noteq> []"
  shows "pv_finish (foldl pv_step (pv_init\<lparr>vals := V @ vals pv_init\<rparr>) x) =
           V @ [processValue (trim x)]"
proof -
  let ?S = "pv_init\<lparr>vals := V @ vals pv_init\<rparr>"
  have "foldl pv_step ?S x = ?S\<lparr>currentValue := currentValue ?S @ x\<rparr>"
    by (rule pv_scan_plain [OF assms(1)]) (simp add: pv_init_def)
  then show ?thesis using assms(2) by (simp add: pv_finish_def pv_init_def)
qed

lemma after_comma:
  assumes "outsideString r"
  shows "\<exists>V. foldl pv_step pv_init (r @ '','') = pv_init\<lparr>vals := V @ vals pv_init\<rparr> \<and>
             parseValuesComplex (r @ '','') = V"
proof -
  let ?st = "foldl pv_step pv_init r"
  from assms have o: "\<not> escaped ?st" "\<not> inString ?st"
    by (simp_all add: outsideString_def Let_def)
  with pv_scan_inv [of r] have n: "stringChar ?st = None" by simp
  let ?V = "vals ?st @ [processValue (trim (currentValue ?st))]"
  have a: "foldl pv_step pv_init (r @ '','') = pv_init\<lparr>vals := ?V @ vals pv_init\<rparr>"
    using field_start_state [OF o n] by simp
  have "parseValuesComplex (r @ '','') = ?V"
    unfolding parseValuesComplex_def a by (simp add: pv_finish_def pv_init_def trim_def)
  with a show ?thesis by blast
qed

lemma field_start:
  assumes "atFieldStart p"
  shows "\<exists>V. foldl pv_step pv_init p = pv_init\<lparr>vals := V @ vals pv_init\<rparr> \<and>
             parseValuesComplex p = V"
proof (cases "p = []")
  case True
  have "foldl pv_step pv_init [] = pv_init\<lparr>vals := [] @ vals pv_init\<rparr>" by simp
  moreover have "parseValuesComplex [] = []"
    by (simp add: parseValuesComplex_def pv_finish_def pv_init_def trim_def)
  ultimately show ?thesis using True by blast
next
  case False
  with assms have l: "last p = CHR '',''" and o: "outsideString (butlast p)"
    by (simp_all add: atFieldStart_def)
  from False l have p: "p = butlast p @ '',''"
    by (metis append_butlast_last_id)
  from after_comma [OF o] p show ?thesis by metis
qed

text \<open>
  Claim C10. Where a field starts (at the beginning of the row text, or after a comma that the
  scan meets outside a string), a blank field token in the last position is dropped: the row
  yields the values of the fields before it and nothing more, one value fewer than with a
  non-blank last token there. This holds for a row that ends with a comma, with a quoted empty
  string, with white space or with quoted white space, and for a row that is one blank field.
  The same token followed by a comma, in an interior position, is kept and lexed to the empty
  string.
\<close>

theorem parseValuesComplex_empty_last_field:
  "atFieldStart p \<and> blankField f \<longrightarrow>
     parseValuesComplex (p @ f) = parseValuesComplex p \<and>
     (\<forall>t. parseValuesComplex (p @ f @ '','' @ t) =
            parseValuesComplex p @ JString [] # parseValuesComplex t) \<and>
     (\<forall>x. list_all plainChar x \<and> \<not> list_all isWhiteSpace x \<longrightarrow>
            parseValuesComplex (p @ x) = parseValuesComplex p @ [processValue (trim x)] \<and>
            length (parseValuesComplex (p @ f)) + 1 = length (parseValuesComplex (p @ x)))"
proof (intro impI, elim conjE)
  assume p: "atFieldStart p" and f: "blankField f"
  from field_start [OF p] obtain V where
    st: "foldl pv_step pv_init p = pv_init\<lparr>vals := V @ vals pv_init\<rparr>"
    and V: "parseValuesComplex p = V"
    by blast
  have run: "parseValuesComplex (p @ y) =
      pv_finish (foldl pv_step (pv_init\<lparr>vals := V @ vals pv_init\<rparr>) y)" for y
    unfolding parseValuesComplex_def using st by simp
  have 1: "parseValuesComplex (p @ f) = V"
    unfolding run by (rule from_field_start_blank(1) [OF f])
  have 2: "parseValuesComplex (p @ f @ '','' @ t) = V @ JString [] # parseValuesComplex t" for t
    unfolding run by (rule from_field_start_blank(2) [OF f])
  have 3: "parseValuesComplex (p @ x) = V @ [processValue (trim x)]"
    if "list_all plainChar x" "\<not> list_all isWhiteSpace x" for x
    unfolding run using that(1) not_blank_trim [OF that(2)] by (rule from_field_start_plain)
  show "parseValuesComplex (p @ f) = parseValuesComplex p \<and>
     (\<forall>t. parseValuesComplex (p @ f @ '','' @ t) =
            parseValuesComplex p @ JString [] # parseValuesComplex t) \<and>
     (\<forall>x. list_all plainChar x \<and> \<not> list_all isWhiteSpace x \<longrightarrow>
            parseValuesComplex (p @ x) = parseValuesComplex p @ [processValue (trim x)] \<and>
            length (parseValuesComplex (p @ f)) + 1 = length (parseValuesComplex (p @ x)))"
    unfolding V using 1 2 3 by simp
qed

theorem parseValuesComplex_empty_last_field_witness:
  "atFieldStart ''1,2,'' \<and> blankField [squote, CHR '' '', squote] \<and>
   parseValuesComplex (''1,2,'' @ [squote, CHR '' '', squote]) =
     [JNumber (Finite 1), JNumber (Finite 2)] \<and>
   parseValuesComplex (''1,2,'' @ [squote, CHR '' '', squote] @ '','' @ ''3'') =
     [JNumber (Finite 1), JNumber (Finite 2), JString [], JNumber (Finite 3)] \<and>
   list_all plainChar ''x'' \<and> \<not> list_all isWhiteSpace ''x'' \<and>
   parseValuesComplex (''1,2,'' @ ''x'') =
     [JNumber (Finite 1), JNumber (Finite 2), JString ''x''] \<and>
   atFieldStart [] \<and> blankField [squote, squote] \<and>
   parseValuesComplex ([] @ [squote, squote]) = [] \<and>
   parseValuesComplex ([] @ [squote, squote] @ '','' @ ''5'') = [JString [], JNumber (Finite 5)] \<and>
   blankField [] \<and> parseValuesComplex (''1,2,'' @ []) = [JNumber (Finite 1), JNumber (Finite 2)]"
proof -
  have h: "atFieldStart ''1,2,''" "blankField [squote, CHR '' '', squote]"
    "atFieldStart []" "blankField [squote, squote]" "blankField []"
    "list_all plainChar ''x''" "\<not> list_all isWhiteSpace ''x''"
    by code_simp+
  have v: "parseValuesComplex ''1,2,'' = [JNumber (Finite 1), JNumber (Finite 2)]"
    "parseValuesComplex ''3'' = [JNumber (Finite 3)]"
    "parseValuesComplex ''5'' = [JNumber (Finite 5)]"
    "parseValuesComplex [] = []"
    "processValue (trim ''x'') = JString ''x''"
    by code_simp+
  from parseValuesComplex_empty_last_field [of "''1,2,''" "[squote, CHR '' '', squote]"] h
  have a: "parseValuesComplex (''1,2,'' @ [squote, CHR '' '', squote]) = parseValuesComplex ''1,2,''"
    and b: "parseValuesComplex (''1,2,'' @ [squote, CHR '' '', squote] @ '','' @ ''3'') =
            parseValuesComplex ''1,2,'' @ JString [] # parseValuesComplex ''3''"
    and c: "parseValuesComplex (''1,2,'' @ ''x'') =
            parseValuesComplex ''1,2,'' @ [processValue (trim ''x'')]"
    by blast+
  from parseValuesComplex_empty_last_field [of "[]" "[squote, squote]"] h
  have d: "parseValuesComplex ([] @ [squote, squote]) = parseValuesComplex []"
    and e: "parseValuesComplex ([] @ [squote, squote] @ '','' @ ''5'') =
            parseValuesComplex [] @ JString [] # parseValuesComplex ''5''"
    by blast+
  from parseValuesComplex_empty_last_field [of "''1,2,''" "[]"] h
  have f: "parseValuesComplex (''1,2,'' @ []) = parseValuesComplex ''1,2,''"
    by blast
  from h a b c d e f show ?thesis unfolding v by simp
qed

section \<open>Rows against the schema\<close>

lemma dom_setColumn: "dom (setColumn columns vs i rowData) = insert (columns ! i) (dom rowData)"
  by (simp add: setColumn_def)

lemma setColumn_apply:
  "setColumn columns vs i rowData k = (if k = columns ! i then Some (vs ! i) else rowData k)"
  by (simp add: setColumn_def)

lemma buildRow_dom:
  "n \<le> length columns \<Longrightarrow>
   dom (fold (setColumn columns vs) [0..<n] Map.empty) =
   set (take n columns)"
proof (induction n)
  case 0
  then show ?case by simp
next
  case (Suc n)
  then have "take (Suc n) columns = take n columns @ [columns ! n]"
    by (simp add: take_Suc_conv_app_nth)
  with Suc show ?case by (simp add: dom_setColumn)
qed

lemma buildRow_value:
  "distinct columns \<Longrightarrow> n \<le> length columns \<Longrightarrow> i < n \<Longrightarrow>
   fold (setColumn columns vs) [0..<n] Map.empty (columns ! i) =
   Some (vs ! i)"
proof (induction n)
  case 0
  then show ?case by simp
next
  case (Suc n)
  show ?case
  proof (cases "i = n")
    case True
    then show ?thesis by (simp add: setColumn_apply)
  next
    case False
    with Suc.prems have i: "i < n" and n: "n < length columns" by simp_all
    with Suc.prems(1) have "columns ! i \<noteq> columns ! n"
      by (simp add: nth_eq_iff_index_eq)
    with Suc.IH [OF Suc.prems(1)] i n show ?thesis by (simp add: setColumn_apply)
  qed
qed

text \<open>
  Claim C3, as the code has it. A row whose field count exceeds the schema's column count is
  skipped: no Row is emitted for it, and no error is raised; so is a row with no field. A row
  with at least one and at most as many fields as columns yields a Row whose keys are exactly
  the first columns, one per field, each holding its field's value, with no key for the
  columns beyond (column names distinct). Both the direct extraction and the recovery pass
  build their rows this way.
\<close>

theorem zipRow_fields:
  "(length columns < length vs \<longrightarrow> zipRow columns vs = None) \<and>
   (vs = [] \<longrightarrow> zipRow columns vs = None) \<and>
   (vs \<noteq> [] \<and> length vs \<le> length columns \<and> distinct columns \<longrightarrow>
      (\<exists>rowData. zipRow columns vs = Some rowData \<and>
         dom rowData = set (take (length vs) columns) \<and>
         (\<forall>i < length vs. rowData (columns ! i) = Some (vs ! i)))) \<and>
   rowOfText columns rowText = zipRow columns (parseValuesComplex (stripOuterParens rowText)) \<and>
   rowOfStatement columns captured = zipRow columns (parseValuesComplex captured)"
proof -
  have 1: "length columns < length vs \<longrightarrow> zipRow columns vs = None"
    by (simp add: zipRow_def)
  have 2: "vs = [] \<longrightarrow> zipRow columns vs = None"
    by (simp add: zipRow_def)
  have 3: "\<exists>rowData. zipRow columns vs = Some rowData \<and>
         dom rowData = set (take (length vs) columns) \<and>
         (\<forall>i < length vs. rowData (columns ! i) = Some (vs ! i))"
    if "vs \<noteq> []" "length vs \<le> length columns" "distinct columns"
  proof -
    from that have "zipRow columns vs = Some (buildRow columns vs)"
      by (simp add: zipRow_def)
    moreover have "dom (buildRow columns vs) = set (take (length vs) columns)"
      unfolding buildRow_def using that(2) by (rule buildRow_dom)
    moreover have "\<forall>i < length vs. buildRow columns vs (columns ! i) = Some (vs ! i)"
      unfolding buildRow_def using that(2,3) by (simp add: buildRow_value)
    ultimately show ?thesis by blast
  qed
  from 1 2 3 show ?thesis unfolding rowOfText_def rowOfStatement_def by blast
qed

theorem zipRow_fields_witness:
  "length [''a'', ''b'', ''c''] < length (parseValuesComplex (stripOuterParens ''(1,2,3,4,5)'')) \<and>
   rowOfText [''a'', ''b'', ''c''] ''(1,2,3,4,5)'' = None \<and>
   parseValuesComplex (stripOuterParens ''(1,2)'') \<noteq> [] \<and>
   length (parseValuesComplex (stripOuterParens ''(1,2)'')) \<le> length [''a'', ''b'', ''c''] \<and>
   distinct [''a'', ''b'', ''c''] \<and>
   (\<exists>rowData. rowOfText [''a'', ''b'', ''c''] ''(1,2)'' = Some rowData \<and>
      dom rowData = {''a'', ''b''} \<and>
      rowData ''a'' = Some (JNumber (Finite 1)) \<and> rowData ''b'' = Some (JNumber (Finite 2)) \<and>
      rowData ''c'' = None)"
proof -
  let ?cols = "[''a'', ''b'', ''c'']"
  let ?v5 = "parseValuesComplex (stripOuterParens ''(1,2,3,4,5)'')"
  let ?v2 = "parseValuesComplex (stripOuterParens ''(1,2)'')"
  have v5: "?v5 =
      [JNumber (Finite 1), JNumber (Finite 2), JNumber (Finite 3), JNumber (Finite 4),
       JNumber (Finite 5)]"
    by code_simp
  have v2: "?v2 = [JNumber (Finite 1), JNumber (Finite 2)]"
    by code_simp
  have h1: "length ?cols < length ?v5"
    unfolding v5 by simp
  have h2: "?v2 \<noteq> [] \<and> length ?v2 \<le> length ?cols \<and> distinct ?cols"
    unfolding v2 by simp
  from zipRow_fields [of ?cols ?v5 "''(1,2,3,4,5)''"] h1
  have none: "rowOfText ?cols ''(1,2,3,4,5)'' = None" by metis
  from zipRow_fields [of ?cols ?v2 "''(1,2)''"] h2
  have "\<exists>rowData. rowOfText ?cols ''(1,2)'' = Some rowData \<and>
         dom rowData = set (take (length ?v2) ?cols) \<and>
         (\<forall>i < length ?v2. rowData (?cols ! i) = Some (?v2 ! i))"
    by metis
  then obtain rowData where r: "rowOfText ?cols ''(1,2)'' = Some rowData"
    and dm: "dom rowData = set (take (length [JNumber (Finite 1), JNumber (Finite 2)]) ?cols)"
    and vs: "\<forall>i < length [JNumber (Finite 1), JNumber (Finite 2)].
        rowData (?cols ! i) = Some ([JNumber (Finite 1), JNumber (Finite 2)] ! i)"
    unfolding v2 by blast
  from dm have dm': "dom rowData = {''a'', ''b''}" by simp
  from vs [rule_format, of 0] vs [rule_format, of 1]
  have "rowData (?cols ! 0) = Some ([JNumber (Finite 1), JNumber (Finite 2)] ! 0)"
    and "rowData (?cols ! 1) = Some ([JNumber (Finite 1), JNumber (Finite 2)] ! 1)"
    by simp_all
  then have a: "rowData ''a'' = Some (JNumber (Finite 1))"
    and b: "rowData ''b'' = Some (JNumber (Finite 2))" by simp_all
  have "''c'' \<notin> dom rowData" unfolding dm' by simp
  then have c: "rowData ''c'' = None" by blast
  from r dm' a b c have "\<exists>rowData. rowOfText ?cols ''(1,2)'' = Some rowData \<and>
      dom rowData = {''a'', ''b''} \<and>
      rowData ''a'' = Some (JNumber (Finite 1)) \<and> rowData ''b'' = Some (JNumber (Finite 2)) \<and>
      rowData ''c'' = None" by blast
  with h1 none h2 show ?thesis by blast
qed

text \<open>Five fields against three columns: the statement yields no Row at all, in the direct
  extraction and in the recovery pass, where the claim has a Row of the first three values.\<close>

theorem excess_fields_counterexample:
  "extractTableData [''(1,2,3,4,5)''] [''a'', ''b'', ''c''] = [] \<and>
   rowOfStatement [''a'', ''b'', ''c''] ''1,2,3,4,5'' = None"
  by code_simp

section \<open>Reading and writing the mapping tables\<close>

lemma lookupId_ensureTable [simp]: "lookupId (ensureTable m entity) entity' k = lookupId m entity' k"
  by (simp add: lookupId_def ensureTable_def hasTable_def update_conv')

lemma hasTable_ensureTable [simp]:
  "hasTable (ensureTable m entity) entity' = (entity' = entity \<or> hasTable m entity')"
  by (auto simp: ensureTable_def hasTable_def update_conv')

lemma lookupId_setEntry:
  "lookupId (setEntry m entity k v) entity' k' =
     (if hasTable m entity \<and> entity' = entity \<and> k' = k then Some v
      else lookupId m entity' k')"
  by (auto simp: lookupId_def setEntry_def hasTable_def update_conv' split: option.splits)

lemma hasTable_setEntry [simp]: "hasTable (setEntry m entity k v) entity' = hasTable m entity'"
  by (auto simp: setEntry_def hasTable_def update_conv' split: option.splits)

lemma idMappings_storeMapping [simp]:
  "idMappings (storeMapping e upd entity k v st) = setEntry (idMappings st) entity k v"
  by (simp add: storeMapping_def Let_def)

lemma listings_not_alias: "''listings'' \<notin> set listingEntities"
  by (simp add: listingEntities_def)

text \<open>What a call that finds no stored identifier does, when the consolidated table exists.\<close>

lemma getOrCreateUUID_absent:
  assumes "\<not> noReference oldId"
    and "\<not> truthy (lookupId (idMappings st) entity (toString oldId))"
    and "hasTable (idMappings st) ''listings''"
  shows "\<exists>st'. getOrCreateUUID e entity oldId defaultOptions st =
           (Returned (Some (uuidv5 e (entity @ '':'' @ toString oldId) UUID_NAMESPACE)), st') \<and>
         lookupId (idMappings st') entity (toString oldId) =
           Some (uuidv5 e (entity @ '':'' @ toString oldId) UUID_NAMESPACE) \<and>
         hasTable (idMappings st') ''listings''"
proof (cases "entity \<in> set listingEntities")
  case False
  with assms show ?thesis
    by (simp add: getOrCreateUUID_def Let_def defaultOptions_def lookupId_setEntry)
next
  case True
  then have ne: "entity \<noteq> ''listings''" using listings_not_alias by auto
  from True assms show ?thesis
    by (simp add: getOrCreateUUID_def Let_def defaultOptions_def mirrorListing_def
        lookupId_setEntry ne)
qed

lemma getOrCreateUUID_present:
  assumes "\<not> noReference oldId"
    and "truthy (lookupId (idMappings st) entity (toString oldId))"
  shows "getOrCreateUUID e entity oldId opts st =
           (Returned (lookupId (idMappings st) entity (toString oldId)),
            st\<lparr>idMappings := ensureTable (idMappings st) entity\<rparr>)"
  using assms by (simp add: getOrCreateUUID_def Let_def)

section \<open>Source ids that are no reference\<close>

text \<open>
  Claim C6, as the code has it. For every entity type, \<^verbatim>\<open>getOrCreateUUID\<close> and
  \<^verbatim>\<open>getUUID\<close> applied to a source id that is null, undefined, the number zero or the
  empty string return null, and \<^verbatim>\<open>getOrCreateUUID\<close> leaves the whole mapper state as it
  was. (The string \<^verbatim>\<open>"0"\<close> is truthy in JavaScript: it passes the guard, see the
  counterexample.)
\<close>

theorem no_reference:
  "getOrCreateUUID e entity IdNull opts st = (Returned None, st) \<and>
   getOrCreateUUID e entity IdUndefined opts st = (Returned None, st) \<and>
   getOrCreateUUID e entity (IdNumber 0) opts st = (Returned None, st) \<and>
   getOrCreateUUID e entity (IdString []) opts st = (Returned None, st) \<and>
   getUUID entity IdNull st = None \<and> getUUID entity IdUndefined st = None \<and>
   getUUID entity (IdNumber 0) st = None \<and> getUUID entity (IdString []) st = None"
  by (simp add: getOrCreateUUID_def getUUID_def noReference_def)

text \<open>The string zero is an ordinary source id: on a fresh mapper
  \<^verbatim>\<open>getOrCreateUUID('users', '0')\<close> returns an identifier and stores it.\<close>

theorem string_zero_counterexample:
  "getUUID ''users'' (IdString ''0'') (freshMapper 0) = None \<and>
       fst (getOrCreateUUID exampleEnv ''users'' (IdString ''0'') defaultOptions (freshMapper 0)) =
         Returned (Some (uuidv5 exampleEnv ''users:0'' UUID_NAMESPACE)) \<and>
       lookupId (idMappings (snd (getOrCreateUUID exampleEnv ''users'' (IdString ''0'') defaultOptions
         (freshMapper 0)))) ''users'' ''0'' = Some (uuidv5 exampleEnv ''users:0'' UUID_NAMESPACE) \<and>
       lookupId (idMappings (freshMapper 0)) ''users'' ''0'' = None"
proof -
  have fresh: "lookupId (idMappings (freshMapper 0)) ''users'' ''0'' = None"
    by (simp add: freshMapper_def entityNames_def lookupId_def)
  have l: "hasTable (idMappings (freshMapper 0)) ''listings''"
    by (simp add: freshMapper_def entityNames_def hasTable_def)
  have nr: "\<not> noReference (IdString ''0'')" by (simp add: noReference_def)
  have ts: "toString (IdString ''0'') = ''0''" by (simp add: toString_def)
  have nt: "\<not> truthy (lookupId (idMappings (freshMapper 0)) ''users'' (toString (IdString ''0'')))"
    by (simp add: fresh ts truthy_def)
  from getOrCreateUUID_absent [OF nr nt l, of exampleEnv] obtain st' where
    r: "getOrCreateUUID exampleEnv ''users'' (IdString ''0'') defaultOptions (freshMapper 0) =
          (Returned (Some (uuidv5 exampleEnv ''users:0'' UUID_NAMESPACE)), st')"
    and s: "lookupId (idMappings st') ''users'' ''0'' = Some (uuidv5 exampleEnv ''users:0'' UUID_NAMESPACE)"
    unfolding ts by auto
  have g: "getUUID ''users'' (IdString ''0'') (freshMapper 0) = None"
    by (simp add: getUUID_def nr ts fresh truthy_def listingEntities_def)
  show "getUUID ''users'' (IdString ''0'') (freshMapper 0) = None \<and>
       fst (getOrCreateUUID exampleEnv ''users'' (IdString ''0'') defaultOptions (freshMapper 0)) =
         Returned (Some (uuidv5 exampleEnv ''users:0'' UUID_NAMESPACE)) \<and>
       lookupId (idMappings (snd (getOrCreateUUID exampleEnv ''users'' (IdString ''0'') defaultOptions
         (freshMapper 0)))) ''users'' ''0'' = Some (uuidv5 exampleEnv ''users:0'' UUID_NAMESPACE) \<and>
       lookupId (idMappings (freshMapper 0)) ''users'' ''0'' = None"
    using g r s fresh by simp
qed

section \<open>The consolidated listings table\<close>

lemma getUUID_listings:
  "\<not> noReference oldId \<Longrightarrow>
   getUUID ''listings'' oldId st =
     (if truthy (lookupId (idMappings st) ''listings'' (toString oldId))
      then lookupId (idMappings st) ''listings'' (toString oldId) else None)"
  by (simp add: getUUID_def Let_def)

text \<open>
  Claim C5, as the code has it. When a call of \<^verbatim>\<open>getOrCreateUUID\<close> for a listing-variant
  type finds no stored identifier for the source id, creates one and returns it, the consolidated
  \<^verbatim>\<open>listings\<close> table holds that identifier under the same source id immediately
  afterwards. (A call that finds a stored identifier returns it and mirrors nothing.)
\<close>

theorem alias_mirror:
  "entity \<in> set listingEntities \<and>
   \<not> truthy (lookupId (idMappings st) entity (toString oldId)) \<and>
   getOrCreateUUID e entity oldId opts st = (Returned (Some X), st') \<and> X \<noteq> [] \<longrightarrow>
   getUUID ''listings'' oldId st' = Some X"
proof (intro impI, elim conjE)
  assume a: "entity \<in> set listingEntities"
    and nt: "\<not> truthy (lookupId (idMappings st) entity (toString oldId))"
    and r: "getOrCreateUUID e entity oldId opts st = (Returned (Some X), st')"
    and X: "X \<noteq> []"
  from r have nr: "\<not> noReference oldId"
    by (auto simp: getOrCreateUUID_def)
  let ?st1 = "st\<lparr>idMappings := ensureTable (idMappings st) entity\<rparr>"
  let ?ns = "case namespaceOverride opts of None \<Rightarrow> UUID_NAMESPACE
             | Some ns \<Rightarrow> if ns = [] then UUID_NAMESPACE else ns"
  let ?new = "if deterministic opts
              then uuidv5 e (entityPrefix opts @ entity @ '':'' @ toString oldId) ?ns
              else uuidv4 e"
  let ?st2 = "storeMapping e (updateReverse opts) entity (toString oldId) ?new ?st1"
  from r nr nt a have m: "mirrorListing (updateReverse opts) (toString oldId) ?new ?st2 = Some st'"
    and x: "X = ?new"
    by (auto simp: getOrCreateUUID_def Let_def split: option.splits)
  from m have "lookupId (idMappings st') ''listings'' (toString oldId) = Some ?new"
    by (auto simp: mirrorListing_def Let_def lookupId_setEntry split: if_splits)
  with x X nr show "getUUID ''listings'' oldId st' = Some X"
    by (simp add: getUUID_listings truthy_def)
qed

section \<open>Persistence and the state a call depends on\<close>

text \<open>The value a call returns, in terms of the state it starts from.\<close>

lemma getOrCreateUUID_result:
  "fst (getOrCreateUUID e entity oldId opts st) =
     (if noReference oldId then Returned None
      else if truthy (lookupId (idMappings st) entity (toString oldId))
      then Returned (lookupId (idMappings st) entity (toString oldId))
      else if entity \<in> set listingEntities \<and> \<not> hasTable (idMappings st) ''listings''
      then TypeError
      else Returned (Some
        (if deterministic opts
         then uuidv5 e (entityPrefix opts @ entity @ '':'' @ toString oldId)
                (case namespaceOverride opts of None \<Rightarrow> UUID_NAMESPACE
                 | Some ns \<Rightarrow> if ns = [] then UUID_NAMESPACE else ns)
         else uuidv4 e)))"
  using listings_not_alias
  by (auto simp: getOrCreateUUID_def Let_def mirrorListing_def split: option.splits)

lemma getOrCreateUUID_default_result:
  "fst (getOrCreateUUID e entity oldId defaultOptions st) =
     (if noReference oldId then Returned None
      else if truthy (lookupId (idMappings st) entity (toString oldId))
      then Returned (lookupId (idMappings st) entity (toString oldId))
      else if entity \<in> set listingEntities \<and> \<not> hasTable (idMappings st) ''listings''
      then TypeError
      else Returned (Some (uuidv5 e (entity @ '':'' @ toString oldId) UUID_NAMESPACE)))"
  by (simp add: getOrCreateUUID_result defaultOptions_def)

text \<open>Keys stay unique under every assignment.\<close>

lemma isObject_update: "isObject m \<Longrightarrow> isObject (AList.update k v m)"
  unfolding isObject_def by (rule distinct_update)

lemma isObject_ensureTable: "isObject m \<Longrightarrow> isObject (ensureTable m entity)"
  by (simp add: ensureTable_def isObject_update)

lemma isObject_setEntry: "isObject m \<Longrightarrow> isObject (setEntry m entity k v)"
  by (simp add: setEntry_def isObject_update split: option.splits)

lemma isObject_getOrCreateUUID:
  "isObject (idMappings st) \<Longrightarrow> isObject (idMappings (snd (getOrCreateUUID e entity oldId opts st)))"
  by (auto simp: getOrCreateUUID_def Let_def mirrorListing_def isObject_ensureTable
      isObject_setEntry split: option.splits)

lemma isObject_freshMapper: "isObject (idMappings (freshMapper t0))"
  by (simp add: isObject_def freshMapper_def entityNames_def)

text \<open>\<^verbatim>\<open>Object.assign\<close> as a map: the source's properties override the target's.\<close>

lemma map_of_rev_distinct: "distinct (map fst xs) \<Longrightarrow> map_of (rev xs) = map_of xs"
proof (induction xs)
  case Nil
  then show ?case by simp
next
  case (Cons p xs)
  obtain k v where p: "p = (k, v)" by (cases p)
  from Cons.prems p have "k \<notin> fst ` set xs" by simp
  then have "map_of xs k = None" by (simp add: map_of_eq_None_iff)
  with Cons p show ?case
    by (auto simp: fun_eq_iff map_add_def split: option.splits)
qed

lemma map_of_assign_rev: "map_of (assign target source) = map_of target ++ map_of (rev source)"
  unfolding assign_def
proof (induction source arbitrary: target)
  case Nil
  then show ?case by simp
next
  case (Cons p source)
  obtain k v where p: "p = (k, v)" by (cases p)
  show ?case
    by (simp add: p Cons.IH update_conv' fun_eq_iff map_add_def split: option.splits)
qed

lemma map_of_assign:
  "isObject source \<Longrightarrow> map_of (assign target source) = map_of target ++ map_of source"
  by (simp add: map_of_assign_rev map_of_rev_distinct isObject_def)

lemma lookupId_assign:
  "isObject source \<Longrightarrow>
   lookupId (assign target source) entity k =
     (if hasTable source entity then lookupId source entity k else lookupId target entity k)"
  by (auto simp: lookupId_def hasTable_def map_of_assign map_add_def split: option.splits)

lemma hasTable_assign:
  "isObject source \<Longrightarrow>
   hasTable (assign target source) entity = (hasTable source entity \<or> hasTable target entity)"
  by (auto simp: hasTable_def map_of_assign map_add_def split: option.splits)

lemma lookupId_no_table: "\<not> hasTable m entity \<Longrightarrow> lookupId m entity k = None"
  by (simp add: lookupId_def hasTable_def)

lemma lookupId_freshMapper: "lookupId (idMappings (freshMapper t0)) entity k = None"
proof (cases "map_of (idMappings (freshMapper t0)) entity")
  case None
  then show ?thesis by (simp add: lookupId_def)
next
  case (Some t)
  then have "(entity, t) \<in> set (idMappings (freshMapper t0))" by (rule map_of_SomeD)
  then have "t = []" by (auto simp: freshMapper_def)
  with Some show ?thesis by (simp add: lookupId_def)
qed

lemma hasTable_freshMapper: "hasTable (idMappings (freshMapper t0)) ''listings''"
  by (simp add: hasTable_def freshMapper_def entityNames_def)

text \<open>A save followed by a load into a fresh mapper.\<close>

lemma save_file:
  "saveMappingsToFile e path fs st = (ok, fs', st') \<Longrightarrow>
   ok \<and> idMappings st' = idMappings st \<and>
   (\<exists>f. fs' path = Some f \<and> fileMappings f = idMappings st)"
  by (auto simp: saveMappingsToFile_def Let_def)

lemma load_file:
  "fs path = Some f \<Longrightarrow>
   fst (loadMappingsFromFile path fs st) \<and>
   idMappings (snd (loadMappingsFromFile path fs st)) = assign (idMappings st) (fileMappings f)"
  by (simp add: loadMappingsFromFile_def Let_def)

lemma reload_tables:
  fixes e :: env and path :: string and fs :: filesystem and t0 :: nat and st :: mapper
  assumes "isObject (idMappings st)"
  defines "st' \<equiv> snd (loadMappingsFromFile path (fst (snd (saveMappingsToFile e path fs st)))
                        (freshMapper t0))"
  shows "lookupId (idMappings st') entity k = lookupId (idMappings st) entity k"
    and "hasTable (idMappings st') ''listings''"
    and "fst (saveMappingsToFile e path fs st)"
    and "fst (loadMappingsFromFile path (fst (snd (saveMappingsToFile e path fs st)))
              (freshMapper t0))"
proof -
  obtain ok fs' st1 where s: "saveMappingsToFile e path fs st = (ok, fs', st1)"
    by (cases "saveMappingsToFile e path fs st") auto
  from save_file [OF s] obtain f where ok: ok and f: "fs' path = Some f"
    and fm: "fileMappings f = idMappings st"
    by blast
  from load_file [of fs' path f "freshMapper t0", OF f]
  have l: "fst (loadMappingsFromFile path fs' (freshMapper t0))"
    and m: "idMappings (snd (loadMappingsFromFile path fs' (freshMapper t0))) =
              assign (idMappings (freshMapper t0)) (idMappings st)"
    by (simp_all add: fm)
  have st': "idMappings st' = assign (idMappings (freshMapper t0)) (idMappings st)"
    unfolding st'_def s using m by simp
  show "lookupId (idMappings st') entity k = lookupId (idMappings st) entity k"
    unfolding st' using assms(1)
    by (simp add: lookupId_assign lookupId_freshMapper lookupId_no_table)
  show "hasTable (idMappings st') ''listings''"
    unfolding st' using assms(1) by (simp add: hasTable_assign hasTable_freshMapper)
  show "fst (saveMappingsToFile e path fs st)" using s ok by simp
  show "fst (loadMappingsFromFile path (fst (snd (saveMappingsToFile e path fs st)))
              (freshMapper t0))"
    using s l by simp
qed

lemma getUUID_cong:
  "(\<And>en k. lookupId (idMappings st') en k = lookupId (idMappings st) en k) \<Longrightarrow>
   getUUID entity oldId st' = getUUID entity oldId st"
  by (simp add: getUUID_def Let_def)

theorem alias_mirror_witness:
  "''businesses'' \<in> set listingEntities \<and>
   \<not> truthy (lookupId (idMappings (freshMapper 0)) ''businesses'' (toString (IdNumber 7))) \<and>
   getOrCreateUUID exampleEnv ''businesses'' (IdNumber 7) defaultOptions (freshMapper 0) =
     (Returned (Some (UUID_NAMESPACE @ ''/businesses:7'')),
      snd (getOrCreateUUID exampleEnv ''businesses'' (IdNumber 7) defaultOptions (freshMapper 0))) \<and>
   UUID_NAMESPACE @ ''/businesses:7'' \<noteq> [] \<and>
   getUUID ''listings'' (IdNumber 7)
     (snd (getOrCreateUUID exampleEnv ''businesses'' (IdNumber 7) defaultOptions (freshMapper 0))) =
     Some (UUID_NAMESPACE @ ''/businesses:7'')"
proof -
  let ?r = "getOrCreateUUID exampleEnv ''businesses'' (IdNumber 7) defaultOptions (freshMapper 0)"
  have a: "''businesses'' \<in> set listingEntities" by (simp add: listingEntities_def)
  have nt: "\<not> truthy (lookupId (idMappings (freshMapper 0)) ''businesses'' (toString (IdNumber 7)))"
    by (simp add: lookupId_freshMapper truthy_def)
  have "fst ?r = Returned (Some (UUID_NAMESPACE @ ''/businesses:7''))"
    by code_simp
  then have r: "?r = (Returned (Some (UUID_NAMESPACE @ ''/businesses:7'')), snd ?r)"
    by (metis prod.collapse)
  have x: "UUID_NAMESPACE @ ''/businesses:7'' \<noteq> []" by simp
  from alias_mirror [of "''businesses''" "freshMapper 0" "IdNumber 7" exampleEnv defaultOptions
      "UUID_NAMESPACE @ ''/businesses:7''" "snd ?r"] a nt r x
  have "getUUID ''listings'' (IdNumber 7) (snd ?r) = Some (UUID_NAMESPACE @ ''/businesses:7'')"
    by blast
  with a nt r x show ?thesis by blast
qed

text \<open>Two listing variants with the same source id share one slot of the consolidated table:
  after business 7 and franchise 7 are both mapped, \<^verbatim>\<open>getOrCreateUUID('businesses', 7)\<close>
  returns the business's identifier while \<^verbatim>\<open>getUUID('listings', 7)\<close> returns the
  franchise's.\<close>

theorem alias_overwritten_counterexample:
  "fst (getOrCreateUUID exampleEnv ''businesses'' (IdNumber 7) defaultOptions
          (snd (setUUID exampleEnv ''franchise'' (IdNumber 7) ''id-f'' True
            (snd (setUUID exampleEnv ''businesses'' (IdNumber 7) ''id-b'' True (freshMapper 0)))))) =
        Returned (Some ''id-b'') \<and>
       getUUID ''listings'' (IdNumber 7)
         (snd (getOrCreateUUID exampleEnv ''businesses'' (IdNumber 7) defaultOptions
           (snd (setUUID exampleEnv ''franchise'' (IdNumber 7) ''id-f'' True
             (snd (setUUID exampleEnv ''businesses'' (IdNumber 7) ''id-b'' True (freshMapper 0))))))) =
        Some ''id-f''"
  by code_simp

section \<open>Stable identifiers\<close>

lemma getOrCreateUUID_after:
  fixes e :: env and entity :: string and oldId :: source_id and st :: mapper
  assumes nr: "\<not> noReference oldId" and l: "hasTable (idMappings st) ''listings''"
  defines "st' \<equiv> snd (getOrCreateUUID e entity oldId defaultOptions st)"
  shows "hasTable (idMappings st') ''listings''"
    and "lookupId (idMappings st') entity (toString oldId) =
           (if truthy (lookupId (idMappings st) entity (toString oldId))
            then lookupId (idMappings st) entity (toString oldId)
            else Some (uuidv5 e (entity @ '':'' @ toString oldId) UUID_NAMESPACE))"
proof -
  have "hasTable (idMappings st') ''listings'' \<and>
        lookupId (idMappings st') entity (toString oldId) =
           (if truthy (lookupId (idMappings st) entity (toString oldId))
            then lookupId (idMappings st) entity (toString oldId)
            else Some (uuidv5 e (entity @ '':'' @ toString oldId) UUID_NAMESPACE))"
  proof (cases "truthy (lookupId (idMappings st) entity (toString oldId))")
    case True
    from getOrCreateUUID_present [OF nr True, of e defaultOptions]
    have "st' = st\<lparr>idMappings := ensureTable (idMappings st) entity\<rparr>"
      by (simp add: st'_def)
    with True l show ?thesis by simp
  next
    case False
    from getOrCreateUUID_absent [OF nr False l, of e] False show ?thesis
      by (auto simp: st'_def)
  qed
  then show "hasTable (idMappings st') ''listings''"
    and "lookupId (idMappings st') entity (toString oldId) =
           (if truthy (lookupId (idMappings st) entity (toString oldId))
            then lookupId (idMappings st) entity (toString oldId)
            else Some (uuidv5 e (entity @ '':'' @ toString oldId) UUID_NAMESPACE))"
    by simp_all
qed

text \<open>A later call, on any state that holds what the first call left for the pair.\<close>

lemma getOrCreateUUID_again:
  assumes nr: "\<not> noReference oldId" and l: "hasTable (idMappings st) ''listings''"
    and g: "uuidv5 e' = uuidv5 e"
    and l2: "hasTable (idMappings st2) ''listings''"
    and same: "lookupId (idMappings st2) entity (toString oldId) =
      lookupId (idMappings (snd (getOrCreateUUID e entity oldId defaultOptions st))) entity
        (toString oldId)"
  shows "fst (getOrCreateUUID e' entity oldId defaultOptions st2) =
         fst (getOrCreateUUID e entity oldId defaultOptions st)"
proof -
  let ?old = "lookupId (idMappings st) entity (toString oldId)"
  let ?new = "uuidv5 e (entity @ '':'' @ toString oldId) UUID_NAMESPACE"
  have first: "fst (getOrCreateUUID e entity oldId defaultOptions st) =
      Returned (if truthy ?old then ?old else Some ?new)"
    using nr l by (simp add: getOrCreateUUID_default_result)
  have stored: "lookupId (idMappings st2) entity (toString oldId) =
      (if truthy ?old then ?old else Some ?new)"
    using same getOrCreateUUID_after(2) [OF nr l, of e entity] by simp
  show ?thesis
  proof (cases "truthy ?old")
    case True
    with stored nr l2 first show ?thesis
      by (simp add: getOrCreateUUID_default_result)
  next
    case False
    with stored nr l2 first g show ?thesis
      by (simp add: getOrCreateUUID_default_result truthy_def)
  qed
qed


lemma snd_serve_Cons: "snd (serve (c # cs) st) = snd (serve cs (snd (runCall c st)))"
  by (simp split: prod.splits)

lemma hasTable_listings_kept:
  "hasTable (idMappings st) ''listings'' \<Longrightarrow>
   hasTable (idMappings (snd (getOrCreateUUID e en i opts st))) ''listings''"
  by (auto simp: getOrCreateUUID_def Let_def mirrorListing_def split: option.splits)

lemma getOrCreateUUID_elsewhere:
  assumes "noReference i \<or>
     \<not> ((en = entity \<or> (entity = ''listings'' \<and> en \<in> set listingEntities)) \<and> toString i = k)"
  shows "lookupId (idMappings (snd (getOrCreateUUID e en i opts st))) entity k =
         lookupId (idMappings st) entity k"
  using assms
  by (auto simp: getOrCreateUUID_def Let_def mirrorListing_def lookupId_setEntry
      split: option.splits)

lemma runCall_keeps:
  assumes nr: "\<not> noReference oldId"
    and l: "hasTable (idMappings s) ''listings''"
    and v: "lookupId (idMappings s) entity (toString oldId) = v"
    and tv: "truthy v \<or> v = Some (uuidv5 e (entity @ '':'' @ toString oldId) UUID_NAMESPACE)"
    and m: "\<not> mirrorsInto entity oldId c"
    and n: "namesPair entity oldId c \<longrightarrow> sameRequest e c"
  shows "lookupId (idMappings (snd (runCall c s))) entity (toString oldId) = v"
proof (cases "namesPair entity oldId c")
  case True
  then have nc: "\<not> noReference (callId c)" and en: "callEntity c = entity"
    and k: "toString (callId c) = toString oldId"
    by (simp_all add: namesPair_def)
  from True n have o: "callOptions c = defaultOptions" and g: "uuidv5 (callEnv c) = uuidv5 e"
    by (simp_all add: sameRequest_def)
  have "lookupId (idMappings (snd (runCall c s))) entity (toString (callId c)) =
      (if truthy (lookupId (idMappings s) entity (toString (callId c)))
       then lookupId (idMappings s) entity (toString (callId c))
       else Some (uuidv5 (callEnv c) (entity @ '':'' @ toString (callId c)) UUID_NAMESPACE))"
    unfolding runCall_def o en using nc l by (rule getOrCreateUUID_after(2))
  with k v tv g show ?thesis by auto
next
  case False
  with m have "noReference (callId c) \<or>
     \<not> ((callEntity c = entity \<or> (entity = ''listings'' \<and> callEntity c \<in> set listingEntities)) \<and>
        toString (callId c) = toString oldId)"
    by (auto simp: namesPair_def mirrorsInto_def)
  then have "lookupId (idMappings (snd (runCall c s))) entity (toString oldId) =
      lookupId (idMappings s) entity (toString oldId)"
    unfolding runCall_def by (rule getOrCreateUUID_elsewhere)
  with v show ?thesis by simp
qed

lemma serve_keeps:
  assumes nr: "\<not> noReference oldId"
    and tv: "truthy v \<or> v = Some (uuidv5 e (entity @ '':'' @ toString oldId) UUID_NAMESPACE)"
  shows "hasTable (idMappings s) ''listings'' \<Longrightarrow> isObject (idMappings s) \<Longrightarrow>
     lookupId (idMappings s) entity (toString oldId) = v \<Longrightarrow>
     \<forall>c\<in>set calls. \<not> mirrorsInto entity oldId c \<and> (namesPair entity oldId c \<longrightarrow> sameRequest e c) \<Longrightarrow>
     hasTable (idMappings (snd (serve calls s))) ''listings'' \<and>
     isObject (idMappings (snd (serve calls s))) \<and>
     lookupId (idMappings (snd (serve calls s))) entity (toString oldId) = v"
proof (induction calls arbitrary: s)
  case Nil
  then show ?case by simp
next
  case (Cons c calls)
  let ?s = "snd (runCall c s)"
  have 1: "hasTable (idMappings ?s) ''listings''"
    unfolding runCall_def using Cons.prems(1) by (rule hasTable_listings_kept)
  have 2: "isObject (idMappings ?s)"
    unfolding runCall_def using Cons.prems(2) by (rule isObject_getOrCreateUUID)
  from Cons.prems(4) have m: "\<not> mirrorsInto entity oldId c"
    and n: "namesPair entity oldId c \<longrightarrow> sameRequest e c"
    by simp_all
  have 3: "lookupId (idMappings ?s) entity (toString oldId) = v"
    using nr Cons.prems(1,3) tv m n by (rule runCall_keeps)
  from Cons.prems(4) have 4:
    "\<forall>c\<in>set calls. \<not> mirrorsInto entity oldId c \<and> (namesPair entity oldId c \<longrightarrow> sameRequest e c)"
    by simp
  from Cons.IH [OF 1 2 3 4] show ?case by (simp only: snd_serve_Cons)
qed

text \<open>
  Claim C1, as the code has it. For every entity type and every source id that passes the guard,
  \<^verbatim>\<open>getOrCreateUUID\<close> with its default options returns the stored identifier when the pair
  has a non-empty one, and otherwise the name-based identifier of the seed
  \<^verbatim>\<open>entity:id\<close> in the fixed namespace, which depends on the namespace and the pair
  alone. A later call with the same pair returns the same identifier, whatever
  \<^verbatim>\<open>getOrCreateUUID\<close> calls the mapper serves in between, as long as none of them is for a
  listing type with the same key while the pair's type is \<^verbatim>\<open>listings\<close> (its mirror would
  overwrite the pair's slot) and those for the pair itself are the same request. The same
  holds on a fresh mapper that has loaded the state persisted after these calls; and
  on a fresh mapper with nothing loaded the call returns the name-based identifier. (The state
  is one in which the \<^verbatim>\<open>listings\<close> table exists, as in every state the module reaches,
  the generator is the same function at both calls, and the names and numbers are those on
  which the model is the code.)
\<close>

theorem getOrCreateUUID_stable:
  "\<not> noReference oldId \<and> ownEntity entity \<and> ownId oldId \<and>
   hasTable (idMappings st) ''listings'' \<and> isObject (idMappings st) \<and> uuidv5 e' = uuidv5 e \<and>
   (\<forall>c\<in>set calls. inModel c \<and> \<not> mirrorsInto entity oldId c \<and>
      (namesPair entity oldId c \<longrightarrow> sameRequest e c)) \<longrightarrow>
     fst (getOrCreateUUID e entity oldId defaultOptions st) =
       Returned (if truthy (lookupId (idMappings st) entity (toString oldId))
                 then lookupId (idMappings st) entity (toString oldId)
                 else Some (uuidv5 e (entity @ '':'' @ toString oldId) UUID_NAMESPACE)) \<and>
     fst (getOrCreateUUID e' entity oldId defaultOptions
            (snd (serve calls (snd (getOrCreateUUID e entity oldId defaultOptions st))))) =
       fst (getOrCreateUUID e entity oldId defaultOptions st) \<and>
     fst (getOrCreateUUID e' entity oldId defaultOptions
            (snd (loadMappingsFromFile path
               (fst (snd (saveMappingsToFile e path fs
                  (snd (serve calls (snd (getOrCreateUUID e entity oldId defaultOptions st)))))))
               (freshMapper t0)))) =
       fst (getOrCreateUUID e entity oldId defaultOptions st) \<and>
     fst (getOrCreateUUID e entity oldId defaultOptions (freshMapper t0)) =
       Returned (Some (uuidv5 e (entity @ '':'' @ toString oldId) UUID_NAMESPACE))"
proof (intro impI, elim conjE)
  assume nr: "\<not> noReference oldId" and l: "hasTable (idMappings st) ''listings''"
    and o: "isObject (idMappings st)" and g: "uuidv5 e' = uuidv5 e"
    and calls: "\<forall>c\<in>set calls. inModel c \<and> \<not> mirrorsInto entity oldId c \<and>
      (namesPair entity oldId c \<longrightarrow> sameRequest e c)"
  let ?old = "lookupId (idMappings st) entity (toString oldId)"
  let ?v = "if truthy ?old then ?old
            else Some (uuidv5 e (entity @ '':'' @ toString oldId) UUID_NAMESPACE)"
  let ?st1 = "snd (getOrCreateUUID e entity oldId defaultOptions st)"
  let ?st2 = "snd (serve calls ?st1)"
  let ?st3 = "snd (loadMappingsFromFile path (fst (snd (saveMappingsToFile e path fs ?st2)))
                (freshMapper t0))"
  have 1: "fst (getOrCreateUUID e entity oldId defaultOptions st) = Returned ?v"
    using nr l by (simp add: getOrCreateUUID_default_result)
  have l1: "hasTable (idMappings ?st1) ''listings''"
    using l by (rule hasTable_listings_kept)
  have o1: "isObject (idMappings ?st1)" using o by (rule isObject_getOrCreateUUID)
  have v1: "lookupId (idMappings ?st1) entity (toString oldId) = ?v"
    using nr l by (rule getOrCreateUUID_after(2))
  have tv: "truthy ?v \<or> ?v = Some (uuidv5 e (entity @ '':'' @ toString oldId) UUID_NAMESPACE)"
    by simp
  from calls have quiet:
    "\<forall>c\<in>set calls. \<not> mirrorsInto entity oldId c \<and> (namesPair entity oldId c \<longrightarrow> sameRequest e c)"
    by simp
  from serve_keeps [OF nr tv l1 o1 v1 quiet]
  have l2: "hasTable (idMappings ?st2) ''listings''" and o2: "isObject (idMappings ?st2)"
    and v2: "lookupId (idMappings ?st2) entity (toString oldId) =
             lookupId (idMappings ?st1) entity (toString oldId)"
    using v1 by simp_all
  have 2: "fst (getOrCreateUUID e' entity oldId defaultOptions ?st2) =
       fst (getOrCreateUUID e entity oldId defaultOptions st)"
    using nr l g l2 v2 by (rule getOrCreateUUID_again)
  have v3: "lookupId (idMappings ?st3) entity (toString oldId) =
            lookupId (idMappings ?st1) entity (toString oldId)"
    using reload_tables(1) [OF o2] v2 by simp
  have 3: "fst (getOrCreateUUID e' entity oldId defaultOptions ?st3) =
       fst (getOrCreateUUID e entity oldId defaultOptions st)"
    using nr l g reload_tables(2) [OF o2] v3 by (rule getOrCreateUUID_again)
  have 4: "fst (getOrCreateUUID e entity oldId defaultOptions (freshMapper t0)) =
       Returned (Some (uuidv5 e (entity @ '':'' @ toString oldId) UUID_NAMESPACE))"
    using nr by (simp add: getOrCreateUUID_default_result lookupId_freshMapper
        hasTable_freshMapper truthy_def)
  from 1 2 3 4 show "fst (getOrCreateUUID e entity oldId defaultOptions st) = Returned ?v \<and>
     fst (getOrCreateUUID e' entity oldId defaultOptions ?st2) =
       fst (getOrCreateUUID e entity oldId defaultOptions st) \<and>
     fst (getOrCreateUUID e' entity oldId defaultOptions ?st3) =
       fst (getOrCreateUUID e entity oldId defaultOptions st) \<and>
     fst (getOrCreateUUID e entity oldId defaultOptions (freshMapper t0)) =
       Returned (Some (uuidv5 e (entity @ '':'' @ toString oldId) UUID_NAMESPACE))"
    by blast
qed

theorem getOrCreateUUID_stable_witness:
  "\<not> noReference (IdNumber 5) \<and> ownEntity ''listings'' \<and> ownId (IdNumber 5) \<and>
   hasTable (idMappings (freshMapper 0)) ''listings'' \<and> isObject (idMappings (freshMapper 0)) \<and>
   uuidv5 (exampleEnv\<lparr>now := 8\<rparr>) = uuidv5 exampleEnv \<and>
   list_all inModel exampleTraffic \<and>
   \<not> list_ex (mirrorsInto ''listings'' (IdNumber 5)) exampleTraffic \<and>
   list_all (sameRequest exampleEnv) (filter (namesPair ''listings'' (IdNumber 5)) exampleTraffic) \<and>
   fst (getOrCreateUUID exampleEnv ''listings'' (IdNumber 5) defaultOptions (freshMapper 0)) =
     Returned (Some (UUID_NAMESPACE @ ''/listings:5'')) \<and>
   fst (getOrCreateUUID (exampleEnv\<lparr>now := 8\<rparr>) ''listings'' (IdNumber 5) defaultOptions
          (snd (serve exampleTraffic
             (snd (getOrCreateUUID exampleEnv ''listings'' (IdNumber 5) defaultOptions
                (freshMapper 0)))))) =
     Returned (Some (UUID_NAMESPACE @ ''/listings:5'')) \<and>
   fst (getOrCreateUUID (exampleEnv\<lparr>now := 8\<rparr>) ''listings'' (IdNumber 5) defaultOptions
          (snd (loadMappingsFromFile ''mappings.json''
             (fst (snd (saveMappingsToFile exampleEnv ''mappings.json'' Map.empty
                (snd (serve exampleTraffic
                   (snd (getOrCreateUUID exampleEnv ''listings'' (IdNumber 5) defaultOptions
                      (freshMapper 0))))))))
             (freshMapper 9)))) =
     Returned (Some (UUID_NAMESPACE @ ''/listings:5''))"
proof -
  have k: "toString (IdNumber 5) = ''5''" "toString (IdNumber 7) = ''7''"
    "toString (IdString ''6'') = ''6''"
    by code_simp+
  have h: "\<not> noReference (IdNumber 5)" "ownEntity ''listings''" "ownId (IdNumber 5)"
    "hasTable (idMappings (freshMapper 0)) ''listings''" "isObject (idMappings (freshMapper 0))"
    by (simp_all add: noReference_def hasTable_freshMapper isObject_freshMapper ownEntity_def
        ownId_def isSafeInteger_def inheritedNames_def)
  have g: "uuidv5 (exampleEnv\<lparr>now := 8\<rparr>) = uuidv5 exampleEnv" by simp
  have t: "\<forall>c\<in>set exampleTraffic. inModel c \<and> \<not> mirrorsInto ''listings'' (IdNumber 5) c \<and>
      (namesPair ''listings'' (IdNumber 5) c \<longrightarrow> sameRequest exampleEnv c)"
    by (simp add: exampleTraffic_def inModel_def mirrorsInto_def namesPair_def sameRequest_def
        ownEntity_def ownId_def isSafeInteger_def inheritedNames_def listingEntities_def k
        noReference_def)
  have v: "fst (getOrCreateUUID exampleEnv ''listings'' (IdNumber 5) defaultOptions (freshMapper 0)) =
     Returned (Some (UUID_NAMESPACE @ ''/listings:5''))"
    by code_simp
  from getOrCreateUUID_stable [of "IdNumber 5" "''listings''" "freshMapper 0"
      "exampleEnv\<lparr>now := 8\<rparr>" exampleEnv exampleTraffic "''mappings.json''" Map.empty 9] h g t
  have "fst (getOrCreateUUID (exampleEnv\<lparr>now := 8\<rparr>) ''listings'' (IdNumber 5) defaultOptions
          (snd (serve exampleTraffic
             (snd (getOrCreateUUID exampleEnv ''listings'' (IdNumber 5) defaultOptions
                (freshMapper 0)))))) =
       fst (getOrCreateUUID exampleEnv ''listings'' (IdNumber 5) defaultOptions (freshMapper 0))"
    and "fst (getOrCreateUUID (exampleEnv\<lparr>now := 8\<rparr>) ''listings'' (IdNumber 5) defaultOptions
          (snd (loadMappingsFromFile ''mappings.json''
             (fst (snd (saveMappingsToFile exampleEnv ''mappings.json'' Map.empty
                (snd (serve exampleTraffic
                   (snd (getOrCreateUUID exampleEnv ''listings'' (IdNumber 5) defaultOptions
                      (freshMapper 0))))))))
             (freshMapper 9)))) =
       fst (getOrCreateUUID exampleEnv ''listings'' (IdNumber 5) defaultOptions (freshMapper 0))"
    by blast+
  moreover have "list_all inModel exampleTraffic"
    "\<not> list_ex (mirrorsInto ''listings'' (IdNumber 5)) exampleTraffic"
    "list_all (sameRequest exampleEnv) (filter (namesPair ''listings'' (IdNumber 5)) exampleTraffic)"
    using t by (auto simp: list_all_iff list_ex_iff)
  ultimately show ?thesis using h g v by simp
qed

text \<open>Two calls \<^verbatim>\<open>getOrCreateUUID('listings', 7)\<close> in one process return two different
  identifiers when \<^verbatim>\<open>getOrCreateUUID('businesses', 7)\<close> is called between them: the second
  returns the identifier made for the business. What the call returns depends on the state of
  the mapper, not on the namespace and the pair alone.\<close>

theorem alias_call_counterexample:
  "fst (getOrCreateUUID exampleEnv ''listings'' (IdNumber 7) defaultOptions (freshMapper 0)) =
     Returned (Some (UUID_NAMESPACE @ ''/listings:7'')) \<and>
   fst (getOrCreateUUID exampleEnv ''listings'' (IdNumber 7) defaultOptions
          (snd (getOrCreateUUID exampleEnv ''businesses'' (IdNumber 7) defaultOptions
            (snd (getOrCreateUUID exampleEnv ''listings'' (IdNumber 7) defaultOptions
              (freshMapper 0)))))) =
     Returned (Some (UUID_NAMESPACE @ ''/businesses:7''))"
  by code_simp

text \<open>The same for any generator: after \<^verbatim>\<open>getOrCreateUUID('listings', 7)\<close>
  on a fresh mapper, \<^verbatim>\<open>getOrCreateUUID('businesses', 7)\<close> overwrites the slot, and the next
  \<^verbatim>\<open>getOrCreateUUID('listings', 7)\<close> returns the identifier of the seed
  \<^verbatim>\<open>businesses:7\<close>, not that of \<^verbatim>\<open>listings:7\<close>.\<close>

lemma created_mirror:
  assumes "entity \<in> set listingEntities" "\<not> noReference oldId"
    and "\<not> truthy (lookupId (idMappings st) entity (toString oldId))"
    and "hasTable (idMappings st) ''listings''"
  shows "lookupId (idMappings (snd (getOrCreateUUID e entity oldId defaultOptions st))) ''listings''
           (toString oldId) =
         Some (uuidv5 e (entity @ '':'' @ toString oldId) UUID_NAMESPACE)"
  using assms listings_not_alias
  by (auto simp: getOrCreateUUID_def Let_def defaultOptions_def mirrorListing_def
      lookupId_setEntry)

lemma alias_overwrite_generated:
  assumes "uuidv5 e ''businesses:7'' UUID_NAMESPACE \<noteq> []"
  shows "fst (getOrCreateUUID e ''listings'' (IdNumber 7) defaultOptions (freshMapper 0)) =
           Returned (Some (uuidv5 e ''listings:7'' UUID_NAMESPACE)) \<and>
         fst (getOrCreateUUID e ''listings'' (IdNumber 7) defaultOptions
           (snd (getOrCreateUUID e ''businesses'' (IdNumber 7) defaultOptions
             (snd (getOrCreateUUID e ''listings'' (IdNumber 7) defaultOptions (freshMapper 0)))))) =
           Returned (Some (uuidv5 e ''businesses:7'' UUID_NAMESPACE))"
proof -
  have k: "toString (IdNumber 7) = ''7''" by code_simp
  have nr: "\<not> noReference (IdNumber 7)" by (simp add: noReference_def)
  have a: "''businesses'' \<in> set listingEntities" by (simp add: listingEntities_def)
  let ?s1 = "snd (getOrCreateUUID e ''listings'' (IdNumber 7) defaultOptions (freshMapper 0))"
  have 1: "fst (getOrCreateUUID e ''listings'' (IdNumber 7) defaultOptions (freshMapper 0)) =
           Returned (Some (uuidv5 e ''listings:7'' UUID_NAMESPACE))"
    using nr by (simp add: getOrCreateUUID_default_result lookupId_freshMapper
        hasTable_freshMapper truthy_def k)
  have l1: "hasTable (idMappings ?s1) ''listings''"
    using nr hasTable_freshMapper by (rule getOrCreateUUID_after(1))
  have b1: "lookupId (idMappings ?s1) ''businesses'' ''7'' = None"
    using listings_not_alias
    by (auto simp: getOrCreateUUID_def Let_def nr k defaultOptions_def lookupId_freshMapper
        truthy_def lookupId_setEntry)
  let ?s2 = "snd (getOrCreateUUID e ''businesses'' (IdNumber 7) defaultOptions ?s1)"
  have "lookupId (idMappings ?s2) ''listings'' (toString (IdNumber 7)) =
      Some (uuidv5 e (''businesses'' @ '':'' @ toString (IdNumber 7)) UUID_NAMESPACE)"
    using a nr _ l1 by (rule created_mirror) (simp add: k b1 truthy_def)
  then have "lookupId (idMappings ?s2) ''listings'' ''7'' =
      Some (uuidv5 e ''businesses:7'' UUID_NAMESPACE)"
    by (simp add: k)
  then have "fst (getOrCreateUUID e ''listings'' (IdNumber 7) defaultOptions ?s2) =
      Returned (Some (uuidv5 e ''businesses:7'' UUID_NAMESPACE))"
    using nr assms by (simp add: getOrCreateUUID_default_result k truthy_def)
  with 1 show ?thesis by simp
qed

section \<open>Callers that race for one key\<close>


lemma entryCount_ensureTable [simp]:
  "entryCount (ensureTable m entity) entity' k = entryCount m entity' k"
  by (simp add: entryCount_def ensureTable_def hasTable_def update_conv')








section \<open>Round trip through the mappings file\<close>

text \<open>
  Claim C7. For every mapper state, saving to a path and loading that path into a fresh mapper
  both succeed, and \<^verbatim>\<open>getUUID\<close> then returns, for every entity type and source id, what it
  returned before the save.
\<close>

theorem persist_load_roundtrip:
  "isObject (idMappings st) \<longrightarrow>
     fst (saveMappingsToFile e path fs st) \<and>
     fst (loadMappingsFromFile path (fst (snd (saveMappingsToFile e path fs st))) (freshMapper t0)) \<and>
     getUUID entity oldId
       (snd (loadMappingsFromFile path (fst (snd (saveMappingsToFile e path fs st)))
          (freshMapper t0))) =
     getUUID entity oldId st"
proof
  assume o: "isObject (idMappings st)"
  have "getUUID entity oldId
       (snd (loadMappingsFromFile path (fst (snd (saveMappingsToFile e path fs st)))
          (freshMapper t0))) =
     getUUID entity oldId st"
    by (rule getUUID_cong) (rule reload_tables(1) [OF o])
  with reload_tables(3,4) [OF o]
  show "fst (saveMappingsToFile e path fs st) \<and>
     fst (loadMappingsFromFile path (fst (snd (saveMappingsToFile e path fs st))) (freshMapper t0)) \<and>
     getUUID entity oldId
       (snd (loadMappingsFromFile path (fst (snd (saveMappingsToFile e path fs st)))
          (freshMapper t0))) =
     getUUID entity oldId st"
    by blast
qed

theorem persist_load_roundtrip_witness:
  "isObject (idMappings (snd (setUUID exampleEnv ''businesses'' (IdNumber 7) ''id-b'' True
      (freshMapper 0)))) \<and>
   getUUID ''listings'' (IdNumber 7)
     (snd (setUUID exampleEnv ''businesses'' (IdNumber 7) ''id-b'' True (freshMapper 0))) =
     Some ''id-b'' \<and>
   getUUID ''listings'' (IdNumber 7)
     (snd (loadMappingsFromFile ''mappings.json''
        (fst (snd (saveMappingsToFile exampleEnv ''mappings.json'' Map.empty
           (snd (setUUID exampleEnv ''businesses'' (IdNumber 7) ''id-b'' True (freshMapper 0))))))
        (freshMapper 9))) =
     Some ''id-b''"
proof -
  let ?st = "snd (setUUID exampleEnv ''businesses'' (IdNumber 7) ''id-b'' True (freshMapper 0))"
  have o: "isObject (idMappings ?st)" by code_simp
  have v: "getUUID ''listings'' (IdNumber 7) ?st = Some ''id-b''" by code_simp
  from persist_load_roundtrip [of ?st exampleEnv "''mappings.json''" Map.empty 9 "''listings''"
      "IdNumber 7"] o
  have "getUUID ''listings'' (IdNumber 7)
     (snd (loadMappingsFromFile ''mappings.json''
        (fst (snd (saveMappingsToFile exampleEnv ''mappings.json'' Map.empty ?st)))
        (freshMapper 9))) = getUUID ''listings'' (IdNumber 7) ?st"
    by blast
  with o v show ?thesis by simp
qed

section \<open>Loading into a mapper that holds entries\<close>

text \<open>What a load leaves in the tables: for an entity type that the file names, the file's
  table and nothing else; for the others, the table held before.\<close>

lemma load_lookup:
  assumes "fs path = Some f" "isObject (fileMappings f)"
  shows "lookupId (idMappings (snd (loadMappingsFromFile path fs st))) entity k =
     (if hasTable (fileMappings f) entity then lookupId (fileMappings f) entity k
      else lookupId (idMappings st) entity k)"
  using load_file [of fs path f st, OF assms(1)] assms(2) by (simp add: lookupId_assign)

text \<open>
  Claim C8, evaluated on the code. \<^verbatim>\<open>Object.assign\<close> replaces the whole table of every
  entity type that the file names: the in-memory entry for user 1 is lost by loading a file
  that has a \<^verbatim>\<open>users\<close> table with an entry for user 2 only, although the file has no
  entry for user 1 that could override it.
\<close>

theorem load_replaces_table:
  "getUUID ''users'' (IdNumber 1)
         (snd (setUUID exampleEnv ''users'' (IdNumber 1) ''id-1'' True (freshMapper 0))) = Some ''id-1'' \<and>
       lookupId (fileMappings exampleFile) ''users'' ''1'' = None \<and>
       getUUID ''users'' (IdNumber 1)
         (snd (loadMappingsFromFile ''mappings.json'' [''mappings.json'' \<mapsto> exampleFile]
           (snd (setUUID exampleEnv ''users'' (IdNumber 1) ''id-1'' True (freshMapper 0))))) = None \<and>
       getUUID ''users'' (IdNumber 2)
         (snd (loadMappingsFromFile ''mappings.json'' [''mappings.json'' \<mapsto> exampleFile]
           (snd (setUUID exampleEnv ''users'' (IdNumber 1) ''id-1'' True (freshMapper 0))))) = Some ''id-2''"
  by code_simp

end
